theory Spec2Isabelle
  imports Main "HOL-Library.Word" "HOL-Library.AList"
begin

text \<open>
  The chat server of \<open>src/public/app.js\<close>: the registry \<open>users\<close>, \<open>getRoomUsers\<close> and the
  socket.io handlers for \<open>join\<close>, \<open>message\<close>, \<open>media\<close>, \<open>typing\<close>, \<open>stop-typing\<close> and
  \<open>disconnect\<close>, as functions on an explicit server state that either throw or return the
  new state and the emissions they make.
\<close>

section \<open>JavaScript strings\<close>

text \<open>
  A JavaScript string is a sequence of UTF-16 code units: \<open>slice\<close> and \<open>length\<close> count
  code units, and \<open>===\<close> on strings compares them one by one.
\<close>

type_synonym jsstring = "16 word list"

text \<open>A string literal of the source (all of them are ASCII).\<close>

definition lit :: "string \<Rightarrow> jsstring" where
  "lit s = map of_char s"

text \<open>
  The code units that \<open>String.prototype.trim\<close> strips: the WhiteSpace and LineTerminator
  productions of ECMAScript (TAB, LF, VT, FF, CR, SP, NBSP, the Unicode space separators,
  LS, PS and the byte order mark).
\<close>

definition isWhiteSpace :: "16 word \<Rightarrow> bool" where
  "isWhiteSpace c =
     (c = 0x9 \<or> c = 0xA \<or> c = 0xB \<or> c = 0xC \<or> c = 0xD \<or> c = 0x20 \<or> c = 0xA0 \<or>
      c = 0x1680 \<or> (0x2000 \<le> c \<and> c \<le> 0x200A) \<or> c = 0x2028 \<or> c = 0x2029 \<or>
      c = 0x202F \<or> c = 0x205F \<or> c = 0x3000 \<or> c = 0xFEFF)"

text \<open>\<open>s.trim()\<close>\<close>

definition trim :: "jsstring \<Rightarrow> jsstring" where
  "trim s = rev (dropWhile isWhiteSpace (rev (dropWhile isWhiteSpace s)))"

text \<open>\<open>s.slice(0, n)\<close> for a literal \<open>n \<ge> 0\<close>\<close>

definition slice0 :: "nat \<Rightarrow> jsstring \<Rightarrow> jsstring" where
  "slice0 n s = take n s"

text \<open>\<open>s.startsWith(p)\<close>\<close>

definition startsWith :: "jsstring \<Rightarrow> jsstring \<Rightarrow> bool" where
  "startsWith s p = (take (length p) s = p)"

section \<open>Numbers and their rendering\<close>

text \<open>The decimal digits of a natural number, most significant first.\<close>

definition digit :: "nat \<Rightarrow> 16 word" where
  "digit d = of_nat (48 + d)"

function string_of_nat :: "nat \<Rightarrow> jsstring" where
  "string_of_nat n =
     (if n < 10 then [digit n] else string_of_nat (n div 10) @ [digit (n mod 10)])"
  by pat_completeness auto
termination
  by (relation "measure id") auto

declare string_of_nat.simps [simp del]

text \<open>
  A JavaScript number. \<open>Decimal neg s n\<close> is the number of sign \<open>neg\<close> and magnitude
  \<open>0.d\<^sub>1\<dots>d\<^sub>k \<times> 10\<^sup>n\<close>, where \<open>d\<^sub>1\<dots>d\<^sub>k\<close> are the decimal digits of \<open>s\<close>; \<open>s = 0\<close> is zero
  (of either sign). Every finite double is such a number: its shortest digits that read
  back as the same double are the \<open>s\<close> that \<open>Number::toString\<close> of ECMAScript works from.
\<close>

datatype jsnum = NaN | Infinity bool | Decimal bool nat int

text \<open>Trailing zeros carry no information: \<open>Number::toString\<close> takes \<open>k\<close> as small as possible.\<close>

function strip_zeros :: "nat \<Rightarrow> nat" where
  "strip_zeros s = (if s \<noteq> 0 \<and> s mod 10 = 0 then strip_zeros (s div 10) else s)"
  by pat_completeness auto
termination
  by (relation "measure id") auto

declare strip_zeros.simps [simp del]

text \<open>The exponent of the scientific notation: its sign and its decimal digits.\<close>

definition exponent_part :: "int \<Rightarrow> jsstring" where
  "exponent_part e = (if 0 \<le> e then lit ''+'' else lit ''-'') @ string_of_nat (nat \<bar>e\<bar>)"

text \<open>
  Steps 6 to 10 of \<open>Number::toString\<close>, for the digits \<open>ds\<close> (there are \<open>k\<close> of them) and the
  position \<open>n\<close> of the decimal point: plain digits with zeros appended up to \<open>10\<^sup>2\<^sup>1\<close>, a
  decimal point inside the digits, a fraction with up to five zeros after the point, and
  the exponent notation otherwise.
\<close>

definition decimal_string :: "jsstring \<Rightarrow> int \<Rightarrow> jsstring" where
  "decimal_string ds n =
     (let k = int (length ds)
      in if k \<le> n \<and> n \<le> 21 then ds @ replicate (nat (n - k)) (digit 0)
         else if 0 < n \<and> n \<le> 21 then take (nat n) ds @ lit ''.'' @ drop (nat n) ds
         else if - 6 < n \<and> n \<le> 0 then lit ''0.'' @ replicate (nat (- n)) (digit 0) @ ds
         else if k = 1 then ds @ lit ''e'' @ exponent_part (n - 1)
         else take 1 ds @ lit ''.'' @ drop 1 ds @ lit ''e'' @ exponent_part (n - 1))"

text \<open>\<open>Number::toString(x)\<close>, which is \<open>String(x)\<close> and \<open>`${x}`\<close> for a number.\<close>

fun number_to_string :: "jsnum \<Rightarrow> jsstring" where
  "number_to_string NaN = lit ''NaN''"
| "number_to_string (Infinity neg) = (if neg then lit ''-Infinity'' else lit ''Infinity'')"
| "number_to_string (Decimal neg s n) =
     (if s = 0 then lit ''0''
      else (if neg then lit ''-'' else []) @ decimal_string (string_of_nat (strip_zeros s)) n)"

text \<open>
  An integer as a number: all its digits stand before the decimal point. \<open>Date.now()\<close>
  returns such a number.
\<close>

definition number_of_int :: "int \<Rightarrow> jsnum" where
  "number_of_int i = Decimal (i < 0) (nat \<bar>i\<bar>) (int (length (string_of_nat (nat \<bar>i\<bar>))))"

section \<open>JavaScript values\<close>

text \<open>
  What a client can put into an event: the values of JSON (a field that is left out reads
  as \<open>undefined\<close>) and binary attachments. An object is the list of its own properties, each
  key once; objects and arrays made from JSON have no other properties of their own and no
  functions in them. A binary attachment reaches the handler as a \<open>Buffer\<close>; it is given
  by the string that decoding its bytes yields, which is what \<open>String()\<close> returns for it.
\<close>

datatype jsval =
    JUndefined
  | JNull
  | JBool bool
  | JNum jsnum
  | JStr jsstring
  | JArray "jsval list"
  | JObject "(jsstring \<times> jsval) list"
  | JBinary jsstring

text \<open>What the handlers can throw.\<close>

datatype error = TypeError

text \<open>
  \<open>String(v)\<close>. For an array it is \<open>Array.prototype.join\<close> with a comma, where \<open>undefined\<close>
  and \<open>null\<close> elements give the empty string. For an object it is the conversion to a
  primitive: an own property \<open>toString\<close> (never a function here) hides
  \<open>Object.prototype.toString\<close>, \<open>valueOf\<close> then yields no primitive, and the conversion throws
  a \<open>TypeError\<close>; an object without it reads \<open>[object Object]\<close>.
\<close>

fun js_String :: "jsval \<Rightarrow> error + jsstring"
  and array_join :: "jsval list \<Rightarrow> error + jsstring" where
  "js_String JUndefined = Inr (lit ''undefined'')"
| "js_String JNull = Inr (lit ''null'')"
| "js_String (JBool b) = Inr (if b then lit ''true'' else lit ''false'')"
| "js_String (JNum x) = Inr (number_to_string x)"
| "js_String (JStr s) = Inr s"
| "js_String (JArray xs) = array_join xs"
| "js_String (JObject ps) =
     (if lit ''toString'' \<in> fst ` set ps then Inl TypeError else Inr (lit ''[object Object]''))"
| "js_String (JBinary d) = Inr d"
| "array_join [] = Inr []"
| "array_join (x # xs) =
     (case (if x = JUndefined \<or> x = JNull then Inr [] else js_String x) of
        Inl e \<Rightarrow> Inl e
      | Inr a \<Rightarrow>
          if xs = [] then Inr a
          else (case array_join xs of Inl e \<Rightarrow> Inl e | Inr b \<Rightarrow> Inr (a @ lit '','' @ b)))"

text \<open>The truthiness of a value: \<open>!v\<close> is \<open>\<not> truthy v\<close>.\<close>

fun truthy :: "jsval \<Rightarrow> bool" where
  "truthy JUndefined = False"
| "truthy JNull = False"
| "truthy (JBool b) = b"
| "truthy (JNum NaN) = False"
| "truthy (JNum (Infinity neg)) = True"
| "truthy (JNum (Decimal neg s n)) = (s \<noteq> 0)"
| "truthy (JStr s) = (s \<noteq> [])"
| "truthy (JArray xs) = True"
| "truthy (JObject ps) = True"
| "truthy (JBinary d) = True"

text \<open>
  The parameter pattern \<open>({ a, b })\<close> of a handler throws a \<open>TypeError\<close> when the payload is
  \<open>undefined\<close> (the client sent none) or \<open>null\<close>.
\<close>

fun nullish :: "jsval \<Rightarrow> bool" where
  "nullish JUndefined = True"
| "nullish JNull = True"
| "nullish v = False"

text \<open>
  Otherwise it reads the properties \<open>v.a\<close> and \<open>v.b\<close>. The handlers read \<open>username\<close>, \<open>room\<close>,
  \<open>text\<close>, \<open>url\<close> and \<open>mimetype\<close>; no prototype has a property of these names, so the read gives
  the own property of an object and \<open>undefined\<close> in every other case.
\<close>

fun js_get :: "jsval \<Rightarrow> jsstring \<Rightarrow> jsval" where
  "js_get (JObject ps) k = (case map_of ps k of None \<Rightarrow> JUndefined | Some v \<Rightarrow> v)"
| "js_get v k = JUndefined"

section \<open>The connection registry and the room directory\<close>

text \<open>The value stored for a socket: \<open>{ username, room }\<close>.\<close>

record user =
  username :: jsstring
  room :: jsstring

text \<open>
  \<open>const users = new Map()\<close>, keyed by socket id. A JavaScript \<open>Map\<close> iterates in
  insertion order, and \<open>set\<close> on a key that is present replaces the value where it stands:
  this is an association list under \<open>AList.update\<close>; \<open>get\<close> is \<open>map_of\<close> and \<open>delete\<close>
  is \<open>AList.delete\<close>.
\<close>

type_synonym registry = "(jsstring \<times> user) list"

text \<open>
  \<open>getRoomUsers(room)\<close>: the loop over the entries of \<open>users\<close>, pushing the username of
  each entry whose room is the one asked for.
\<close>

fun getRoomUsers_loop :: "registry \<Rightarrow> jsstring \<Rightarrow> jsstring list \<Rightarrow> jsstring list" where
  "getRoomUsers_loop [] r roomUsers = roomUsers"
| "getRoomUsers_loop ((sid, u) # rest) r roomUsers =
     getRoomUsers_loop rest r (if room u = r then roomUsers @ [username u] else roomUsers)"

definition getRoomUsers :: "registry \<Rightarrow> jsstring \<Rightarrow> jsstring list" where
  "getRoomUsers us r = getRoomUsers_loop us r []"

section \<open>The server state and the socket.io operations the handlers call\<close>

text \<open>
  The state of the server process: the registry \<open>users\<close> of the source, and the two
  tables socket.io keeps, the sockets that are connected and, for each room name, the set
  of sockets subscribed to it.
\<close>

record server =
  users :: registry
  rooms :: "jsstring \<Rightarrow> jsstring set"
  sockets :: "jsstring set"

definition init :: server where
  "init = \<lparr>users = [], rooms = (\<lambda>r. {}), sockets = {}\<rparr>"

text \<open>What the server sends: the event name with its payload.\<close>

datatype packet =
    System (message: jsstring) (timestamp: int)
  | RoomUsers (roster: "jsstring list")
  | ChatMessage (msg_id: jsstring) (sender: jsstring) (body: jsstring) (timestamp: int)
  | MediaMessage (msg_id: jsstring) (sender: jsstring) (url: jsstring) (mimetype: jsstring)
      (timestamp: int)
  | TypingEvent (sender: jsstring)
  | StopTypingEvent (sender: jsstring)

text \<open>
  One \<open>emit\<close>: the room it is addressed to, the socket left out (the sender, for
  \<open>socket.to\<close>), the sockets it is delivered to, and the packet.
\<close>

record emission =
  to_room :: jsstring
  except :: "jsstring option"
  recipients :: "jsstring set"
  packet :: packet

text \<open>\<open>socket.join(r)\<close> subscribes the socket to the room; it leaves no other room.\<close>

definition socket_join :: "jsstring \<Rightarrow> jsstring \<Rightarrow> server \<Rightarrow> server" where
  "socket_join sid r s = s\<lparr>rooms := (rooms s)(r := insert sid (rooms s r))\<rparr>"

text \<open>\<open>io.to(r).emit(...)\<close> goes to every socket subscribed to the room.\<close>

definition io_to_emit :: "server \<Rightarrow> jsstring \<Rightarrow> packet \<Rightarrow> emission" where
  "io_to_emit s r p = \<lparr>to_room = r, except = None, recipients = rooms s r, packet = p\<rparr>"

text \<open>\<open>socket.to(r).emit(...)\<close> goes to every socket subscribed to the room but the sender.\<close>

definition socket_to_emit :: "server \<Rightarrow> jsstring \<Rightarrow> jsstring \<Rightarrow> packet \<Rightarrow> emission" where
  "socket_to_emit s sid r p =
     \<lparr>to_room = r, except = Some sid, recipients = rooms s r - {sid}, packet = p\<rparr>"

text \<open>
  A new socket is connected and, as socket.io does for every socket, subscribed to the
  room named by its own id.
\<close>

definition connect :: "jsstring \<Rightarrow> server \<Rightarrow> server" where
  "connect sid s =
     s\<lparr>rooms := (rooms s)(sid := insert sid (rooms s sid)), sockets := insert sid (sockets s)\<rparr>"

text \<open>
  When a socket closes, socket.io takes it out of every room before the \<open>disconnect\<close>
  listeners run.
\<close>

definition leave_all :: "jsstring \<Rightarrow> server \<Rightarrow> server" where
  "leave_all sid s = s\<lparr>rooms := (\<lambda>r. rooms s r - {sid}), sockets := sockets s - {sid}\<rparr>"

section \<open>The event handlers\<close>

text \<open>
  Each handler takes the id of its socket, the payload the client sent, the values the
  calls of \<open>Date.now()\<close> return (in the order the handler makes them) and the state. It
  either throws, which nothing catches and which ends the server process, or returns the
  new state and the emissions, in order. A return without emission is the silent drop of
  the source.
\<close>

text \<open>\<open>String(v).slice(0, n).trim()\<close>\<close>

definition safe :: "nat \<Rightarrow> jsval \<Rightarrow> error + jsstring" where
  "safe n v = (case js_String v of Inl e \<Rightarrow> Inl e | Inr t \<Rightarrow> Inr (trim (slice0 n t)))"

text \<open>The id of a message: \<open>`${socket.id}-${Date.now()}`\<close>\<close>

definition message_id :: "jsstring \<Rightarrow> int \<Rightarrow> jsstring" where
  "message_id sid now = sid @ lit ''-'' @ number_to_string (number_of_int now)"

definition on_join ::
  "jsstring \<Rightarrow> jsval \<Rightarrow> int \<Rightarrow> server \<Rightarrow> error + server \<times> emission list" where
  "on_join sid payload now s =
     (if nullish payload then Inl TypeError
      else
        let uname = js_get payload (lit ''username'');
            rname = js_get payload (lit ''room'')
        in if \<not> truthy uname \<or> \<not> truthy rname then Inr (s, [])
           else
             (case safe 30 uname of
                Inl e \<Rightarrow> Inl e
              | Inr safeUsername \<Rightarrow>
                  (case safe 30 rname of
                     Inl e \<Rightarrow> Inl e
                   | Inr safeRoom \<Rightarrow>
                       if safeUsername = [] \<or> safeRoom = [] then Inr (s, [])
                       else
                         let s1 = s\<lparr>users :=
                                    AList.update sid
                                      \<lparr>username = safeUsername, room = safeRoom\<rparr> (users s)\<rparr>;
                             s2 = socket_join sid safeRoom s1
                         in Inr (s2,
                              [socket_to_emit s2 sid safeRoom
                                 (System (safeUsername @ lit '' joined the room'') now),
                               io_to_emit s2 safeRoom
                                 (RoomUsers (getRoomUsers (users s2) safeRoom))]))))"

definition on_message ::
  "jsstring \<Rightarrow> jsval \<Rightarrow> int \<Rightarrow> int \<Rightarrow> server \<Rightarrow> error + server \<times> emission list" where
  "on_message sid payload now1 now2 s =
     (if nullish payload then Inl TypeError
      else
        (case map_of (users s) sid of
           None \<Rightarrow> Inr (s, [])
         | Some u \<Rightarrow>
             (case safe 2000 (js_get payload (lit ''text'')) of
                Inl e \<Rightarrow> Inl e
              | Inr safeText \<Rightarrow>
                  if safeText = [] then Inr (s, [])
                  else Inr (s,
                         [io_to_emit s (room u)
                            (ChatMessage (message_id sid now1) (username u) safeText now2)]))))"

definition on_media ::
  "jsstring \<Rightarrow> jsval \<Rightarrow> int \<Rightarrow> int \<Rightarrow> server \<Rightarrow> error + server \<times> emission list" where
  "on_media sid payload now1 now2 s =
     (if nullish payload then Inl TypeError
      else
        (case map_of (users s) sid of
           None \<Rightarrow> Inr (s, [])
         | Some u \<Rightarrow>
             (case js_get payload (lit ''url'') of
                JStr link \<Rightarrow>
                  if \<not> startsWith link (lit ''/uploads/'') then Inr (s, [])
                  else
                    (case js_String (js_get payload (lit ''mimetype'')) of
                       Inl e \<Rightarrow> Inl e
                     | Inr mime \<Rightarrow>
                         Inr (s,
                           [io_to_emit s (room u)
                              (MediaMessage (message_id sid now1) (username u) link mime
                                 now2)]))
              | _ \<Rightarrow> Inr (s, []))))"

text \<open>The handlers of \<open>typing\<close>, \<open>stop-typing\<close> and \<open>disconnect\<close> take no payload.\<close>

definition on_typing :: "jsstring \<Rightarrow> server \<Rightarrow> error + server \<times> emission list" where
  "on_typing sid s =
     (case map_of (users s) sid of
        None \<Rightarrow> Inr (s, [])
      | Some u \<Rightarrow> Inr (s, [socket_to_emit s sid (room u) (TypingEvent (username u))]))"

definition on_stop_typing :: "jsstring \<Rightarrow> server \<Rightarrow> error + server \<times> emission list" where
  "on_stop_typing sid s =
     (case map_of (users s) sid of
        None \<Rightarrow> Inr (s, [])
      | Some u \<Rightarrow> Inr (s, [socket_to_emit s sid (room u) (StopTypingEvent (username u))]))"

definition on_disconnect :: "jsstring \<Rightarrow> int \<Rightarrow> server \<Rightarrow> error + server \<times> emission list" where
  "on_disconnect sid now s =
     (case map_of (users s) sid of
        None \<Rightarrow> Inr (s, [])
      | Some u \<Rightarrow>
          let s1 = s\<lparr>users := AList.delete sid (users s)\<rparr>
          in Inr (s1,
               [socket_to_emit s1 sid (room u)
                  (System (username u @ lit '' left the room'') now),
                io_to_emit s1 (room u) (RoomUsers (getRoomUsers (users s1) (room u)))]))"

section \<open>The server as a transition system\<close>

text \<open>
  What can happen to the server: a socket connects, a connected socket sends one of the
  client events, or it closes. socket.io gives every live socket an id of its own, and
  the listeners of \<open>io.on('connection', ...)\<close> exist for connected sockets only, so an
  event for a socket that is not connected changes nothing. A step that throws has no
  next state: the process is gone.
\<close>

datatype event =
    Connect jsstring
  | Join jsstring jsval int
  | Message jsstring jsval int int
  | Media jsstring jsval int int
  | Typing jsstring
  | StopTyping jsstring
  | Disconnect jsstring int

fun step :: "server \<Rightarrow> event \<Rightarrow> error + server \<times> emission list" where
  "step s (Connect sid) = (if sid \<in> sockets s then Inr (s, []) else Inr (connect sid s, []))"
| "step s (Join sid payload now) =
     (if sid \<in> sockets s then on_join sid payload now s else Inr (s, []))"
| "step s (Message sid payload now1 now2) =
     (if sid \<in> sockets s then on_message sid payload now1 now2 s else Inr (s, []))"
| "step s (Media sid payload now1 now2) =
     (if sid \<in> sockets s then on_media sid payload now1 now2 s else Inr (s, []))"
| "step s (Typing sid) = (if sid \<in> sockets s then on_typing sid s else Inr (s, []))"
| "step s (StopTyping sid) = (if sid \<in> sockets s then on_stop_typing sid s else Inr (s, []))"
| "step s (Disconnect sid now) =
     (if sid \<in> sockets s then on_disconnect sid now (leave_all sid s) else Inr (s, []))"

inductive reachable :: "server \<Rightarrow> bool" where
  reachable_init: "reachable init"
| reachable_step: "reachable s \<Longrightarrow> step s e = Inr (s', out) \<Longrightarrow> reachable s'"

text \<open>
  The invariant of the reachable states: one registry entry per socket, every registered
  socket is subscribed to the room of its entry, and only connected sockets are
  subscribed or registered.
\<close>

definition wf :: "server \<Rightarrow> bool" where
  "wf s = (distinct (map fst (users s)) \<and>
           (\<forall>sid u. map_of (users s) sid = Some u \<longrightarrow> sid \<in> rooms s (room u)) \<and>
           (\<forall>r. rooms s r \<subseteq> sockets s) \<and>
           fst ` set (users s) \<subseteq> sockets s)"

section \<open>A scenario\<close>

text \<open>The state after a successful join that stored the username \<open>a\<close> and the room \<open>b\<close>.\<close>

definition joined :: "jsstring \<Rightarrow> jsstring \<Rightarrow> jsstring \<Rightarrow> server \<Rightarrow> server" where
  "joined sid a b s =
     socket_join sid b (s\<lparr>users := AList.update sid \<lparr>username = a, room = b\<rparr> (users s)\<rparr>)"

text \<open>The payloads \<open>{ username, room }\<close>, \<open>{ text }\<close> and \<open>{ url, mimetype }\<close>.\<close>

definition join_payload :: "jsval \<Rightarrow> jsval \<Rightarrow> jsval" where
  "join_payload u r = JObject [(lit ''username'', u), (lit ''room'', r)]"

definition text_payload :: "jsval \<Rightarrow> jsval" where
  "text_payload t = JObject [(lit ''text'', t)]"

definition media_payload :: "jsval \<Rightarrow> jsval \<Rightarrow> jsval" where
  "media_payload u m = JObject [(lit ''url'', u), (lit ''mimetype'', m)]"

text \<open>
  Two sockets join the room \<open>lobby\<close> as \<open>alice\<close> and \<open>bob\<close>; later the second one joins
  the room \<open>den\<close> on the same connection.
\<close>

definition sockA :: jsstring where "sockA = lit ''sockA''"
definition sockB :: jsstring where "sockB = lit ''sockB''"
definition alice :: jsstring where "alice = lit ''alice''"
definition bob :: jsstring where "bob = lit ''bob''"
definition lobby :: jsstring where "lobby = lit ''lobby''"
definition den :: jsstring where "den = lit ''den''"
definition hi :: jsstring where "hi = lit ''hi''"

definition alice_joined :: server where
  "alice_joined = joined sockA alice lobby (connect sockA init)"

definition bob_connected :: server where
  "bob_connected = connect sockB alice_joined"

definition two_in_lobby :: server where
  "two_in_lobby = joined sockB bob lobby bob_connected"

definition bob_moved :: server where
  "bob_moved = joined sockB bob den two_in_lobby"

text \<open>A text of 2000 blanks followed by one letter.\<close>

definition blanks_then_x :: jsval where
  "blanks_then_x = JStr (replicate 2000 0x20 @ lit ''x'')"

text \<open>An object with an own property \<open>toString\<close>, as JSON \<open>{"toString": 1}\<close> gives.\<close>

definition no_string :: jsval where
  "no_string = JObject [(lit ''toString'', JNum (number_of_int 1))]"

section \<open>Strings and numbers\<close>

lemma string_of_nat_small: "n < 10 \<Longrightarrow> string_of_nat n = [digit n]"
  by (simp add: string_of_nat.simps)

lemma string_of_nat_large:
  "10 \<le> n \<Longrightarrow> string_of_nat n = string_of_nat (n div 10) @ [digit (n mod 10)]"
  by (subst string_of_nat.simps) simp

lemma strip_zeros_step:
  "s \<noteq> 0 \<Longrightarrow> s mod 10 = 0 \<Longrightarrow> strip_zeros s = strip_zeros (s div 10)"
  by (subst strip_zeros.simps) simp

lemma strip_zeros_done: "s mod 10 \<noteq> 0 \<Longrightarrow> strip_zeros s = s"
  by (subst strip_zeros.simps) simp

lemma replicate_unfold: "0 < n \<Longrightarrow> replicate n x = x # replicate (n - 1) x"
  by (cases n) simp_all

lemmas render = replicate_unfold string_of_nat_small string_of_nat_large strip_zeros_step
  strip_zeros_done number_of_int_def decimal_string_def exponent_part_def digit_def lit_def
  Let_def

lemma number_examples:
  "number_to_string (Decimal False 1 22) = lit ''1e+21''"
  "number_to_string (number_of_int 1000000000000000000000) = lit ''1e+21''"
  "number_to_string (number_of_int 123456789012345680000) = lit ''123456789012345680000''"
  "number_to_string (Decimal False 5 0) = lit ''0.5''"
  "number_to_string (Decimal True 125 1) = lit ''-1.25''"
  "number_to_string (Decimal False 1 (- 6)) = lit ''1e-7''"
  "number_to_string (Decimal False 1 (- 5)) = lit ''0.000001''"
  "number_to_string (Decimal False 12345 30) = lit ''1.2345e+29''"
  "number_to_string (number_of_int (- 42)) = lit ''-42''"
  "number_to_string (Decimal True 0 1) = lit ''0''"
  by (simp_all add: render)

lemma string_examples:
  "js_String (JArray [JNum (number_of_int 1), JStr (lit '' a ''), JNull,
      JArray [JBool True, JUndefined]]) = Inr (lit ''1, a ,,true,'')"
  "js_String (JObject [(lit ''a'', JNull)]) = Inr (lit ''[object Object]'')"
  "js_String (JObject [(lit ''toString'', JNull)]) = Inl TypeError"
  "js_String (JArray [JObject [(lit ''toString'', JNull)]]) = Inl TypeError"
  by (simp_all add: render)

lemma clock_lit:
  "number_to_string (number_of_int 0) = lit ''0''"
  "number_to_string (number_of_int 4000) = lit ''4000''"
  "number_to_string (number_of_int 4001) = lit ''4001''"
  by (simp_all add: render)

lemma length_trim_le: "length (trim s) \<le> length s"
proof -
  have "length (trim s) \<le> length (dropWhile isWhiteSpace s)"
    using length_dropWhile_le [of isWhiteSpace "rev (dropWhile isWhiteSpace s)"]
    by (simp add: trim_def)
  also have "\<dots> \<le> length s"
    by (rule length_dropWhile_le)
  finally show ?thesis .
qed

lemma length_safe_le: "safe n v = Inr a \<Longrightarrow> length a \<le> n"
proof -
  assume "safe n v = Inr a"
  then obtain t where "a = trim (take n t)"
    by (auto simp: safe_def slice0_def split: sum.splits)
  moreover have "length (trim (take n t)) \<le> length (take n t)"
    by (rule length_trim_le)
  ultimately show ?thesis
    by simp
qed

lemma trim_empty_iff: "trim s = [] \<longleftrightarrow> (\<forall>c\<in>set s. isWhiteSpace c)"
proof
  assume "trim s = []"
  then have e: "dropWhile isWhiteSpace (rev (dropWhile isWhiteSpace s)) = []"
    by (simp add: trim_def)
  show "\<forall>c\<in>set s. isWhiteSpace c"
  proof (cases "dropWhile isWhiteSpace s")
    case Nil
    then show ?thesis
      by (simp add: dropWhile_eq_Nil_conv)
  next
    case (Cons x xs)
    then have "\<not> isWhiteSpace x"
      using hd_dropWhile [of isWhiteSpace s] by simp
    moreover from e Cons have "isWhiteSpace x"
      by (simp add: dropWhile_eq_Nil_conv)
    ultimately show ?thesis
      by simp
  qed
next
  assume "\<forall>c\<in>set s. isWhiteSpace c"
  then have d: "dropWhile isWhiteSpace s = []"
    by (simp add: dropWhile_eq_Nil_conv)
  show "trim s = []"
    unfolding trim_def d by simp
qed

lemma trim_take_empty: "trim s = [] \<Longrightarrow> trim (take n s) = []"
  unfolding trim_empty_iff by (meson in_set_takeD)

section \<open>The room directory is a filter of the registry\<close>

lemma getRoomUsers_loop_eq:
  "getRoomUsers_loop us r acc = acc @ map (username \<circ> snd) (filter (\<lambda>e. room (snd e) = r) us)"
  by (induction us r acc rule: getRoomUsers_loop.induct) auto

lemma getRoomUsers_eq:
  "getRoomUsers us r = map (username \<circ> snd) (filter (\<lambda>e. room (snd e) = r) us)"
  by (simp add: getRoomUsers_def getRoomUsers_loop_eq)

section \<open>The invariant of the reachable states\<close>

lemma wf_init: "wf init"
  by (simp add: wf_def init_def)

lemma wf_connect: "wf s \<Longrightarrow> sid \<notin> sockets s \<Longrightarrow> wf (connect sid s)"
  by (auto simp: wf_def connect_def)

lemma on_join_success:
  assumes "on_join sid p now s = Inr (s', out)" and "out \<noteq> []"
  shows "\<exists>a b. safe 30 (js_get p (lit ''username'')) = Inr a \<and>
           safe 30 (js_get p (lit ''room'')) = Inr b \<and> a \<noteq> [] \<and> b \<noteq> [] \<and>
           truthy (js_get p (lit ''username'')) \<and> truthy (js_get p (lit ''room'')) \<and>
           \<not> nullish p \<and> s' = joined sid a b s \<and>
           out = [socket_to_emit s' sid b (System (a @ lit '' joined the room'') now),
                  io_to_emit s' b (RoomUsers (getRoomUsers (users s') b))]"
  using assms
  by (auto simp: on_join_def Let_def joined_def split: if_splits sum.splits)

lemma on_join_drop:
  assumes "on_join sid p now s = Inr (s', [])"
  shows "s' = s"
  using assms
  by (auto simp: on_join_def Let_def split: if_splits sum.splits)

lemma wf_joined:
  assumes "wf s" and "sid \<in> sockets s"
  shows "wf (joined sid a b s)"
proof -
  let ?v = "\<lparr>username = a, room = b\<rparr>"
  let ?t = "joined sid a b s"
  have t: "?t = s\<lparr>users := AList.update sid ?v (users s),
      rooms := (rooms s)(b := insert sid (rooms s b))\<rparr>"
    by (simp add: joined_def socket_join_def)
  have "distinct (map fst (users ?t))"
    using assms by (simp add: t wf_def distinct_update)
  moreover have "\<forall>c v. map_of (users ?t) c = Some v \<longrightarrow> c \<in> rooms ?t (room v)"
  proof (intro allI impI)
    fix c v
    assume cv: "map_of (users ?t) c = Some v"
    show "c \<in> rooms ?t (room v)"
    proof (cases "c = sid")
      case True
      with cv have "v = ?v"
        by (simp add: t update_conv')
      with True show ?thesis
        by (simp add: t)
    next
      case False
      with cv have "map_of (users s) c = Some v"
        by (simp add: t update_conv')
      with assms(1) have "c \<in> rooms s (room v)"
        unfolding wf_def by blast
      then show ?thesis
        by (auto simp: t)
    qed
  qed
  moreover have "\<forall>x. rooms ?t x \<subseteq> sockets ?t"
    using assms by (auto simp: t wf_def)
  moreover have "fst ` set (users ?t) \<subseteq> sockets ?t"
    using assms by (auto simp: t wf_def dom_update)
  ultimately show ?thesis
    by (simp add: wf_def)
qed

lemma wf_on_join:
  assumes "wf s" and "sid \<in> sockets s" and "on_join sid p now s = Inr (s', out)"
  shows "wf s'"
proof (cases "out = []")
  case True
  with assms(3) have "s' = s"
    by (simp add: on_join_drop)
  with assms(1) show ?thesis
    by simp
next
  case False
  from on_join_success [OF assms(3) False] obtain a b where "s' = joined sid a b s"
    by blast
  with assms(1,2) show ?thesis
    by (simp add: wf_joined)
qed

lemma on_message_state: "on_message sid p n1 n2 s = Inr (s', out) \<Longrightarrow> s' = s"
  by (auto simp: on_message_def split: if_splits option.splits sum.splits)

lemma on_media_state: "on_media sid p n1 n2 s = Inr (s', out) \<Longrightarrow> s' = s"
  by (auto simp: on_media_def split: if_splits option.splits sum.splits jsval.splits)

lemma on_typing_state: "on_typing sid s = Inr (s', out) \<Longrightarrow> s' = s"
  by (auto simp: on_typing_def split: option.splits)

lemma on_stop_typing_state: "on_stop_typing sid s = Inr (s', out) \<Longrightarrow> s' = s"
  by (auto simp: on_stop_typing_def split: option.splits)

lemma disconnect_returns:
  "\<exists>out. on_disconnect sid now (leave_all sid s) =
     Inr (s\<lparr>users := AList.delete sid (users s), rooms := (\<lambda>r. rooms s r - {sid}),
            sockets := sockets s - {sid}\<rparr>, out)"
proof (cases "map_of (users s) sid")
  case None
  then have "sid \<notin> fst ` set (users s)"
    by (simp add: map_of_eq_None_iff)
  then show ?thesis
    using None by (simp add: on_disconnect_def leave_all_def)
next
  case (Some v)
  then show ?thesis
    by (simp add: on_disconnect_def leave_all_def Let_def)
qed

lemma disconnect_state:
  assumes "on_disconnect sid now (leave_all sid s) = Inr (s', out)"
  shows "s' = s\<lparr>users := AList.delete sid (users s), rooms := (\<lambda>r. rooms s r - {sid}),
      sockets := sockets s - {sid}\<rparr>"
  using disconnect_returns [of sid now s] assms by auto

lemma wf_disconnect:
  assumes "wf s" and "on_disconnect sid now (leave_all sid s) = Inr (s', out)"
  shows "wf s'"
proof -
  let ?t = "s'"
  have t: "?t = s\<lparr>users := AList.delete sid (users s), rooms := (\<lambda>r. rooms s r - {sid}),
      sockets := sockets s - {sid}\<rparr>"
    using assms(2) by (rule disconnect_state)
  have "distinct (map fst (users ?t))"
    using assms(1) by (simp add: t wf_def distinct_delete)
  moreover have "\<forall>c v. map_of (users ?t) c = Some v \<longrightarrow> c \<in> rooms ?t (room v)"
    using assms(1) unfolding wf_def t
    by (auto simp: delete_conv' simp del: map_of_eq_Some_iff split: if_splits)
  moreover have "\<forall>x. rooms ?t x \<subseteq> sockets ?t"
    using assms(1) by (auto simp: t wf_def)
  moreover have "fst ` set (users ?t) \<subseteq> sockets ?t"
  proof -
    have "fst ` set (AList.delete sid (users s)) \<subseteq> fst ` set (users s) - {sid}"
      using dom_delete_subset [of sid "users s"] delete_notin_dom [of sid "users s"]
      by blast
    moreover have "fst ` set (users s) \<subseteq> sockets s"
      using assms(1) by (simp add: wf_def)
    ultimately show ?thesis
      unfolding t by auto
  qed
  ultimately show ?thesis
    by (simp add: wf_def)
qed

lemma wf_step:
  assumes "wf s" and "step s e = Inr (s', out)"
  shows "wf s'"
proof (cases e)
  case (Connect sid)
  with assms show ?thesis
    by (auto simp: wf_connect split: if_splits)
next
  case (Join sid p now)
  with assms show ?thesis
    by (auto simp: wf_on_join split: if_splits)
next
  case (Message sid p n1 n2)
  with assms show ?thesis
    by (auto dest: on_message_state split: if_splits)
next
  case (Media sid p n1 n2)
  with assms show ?thesis
    by (auto dest: on_media_state split: if_splits)
next
  case (Typing sid)
  with assms show ?thesis
    by (auto dest: on_typing_state split: if_splits)
next
  case (StopTyping sid)
  with assms show ?thesis
    by (auto dest: on_stop_typing_state split: if_splits)
next
  case (Disconnect sid now)
  with assms show ?thesis
    by (auto simp: wf_disconnect split: if_splits)
qed

lemma reachable_wf: "reachable s \<Longrightarrow> wf s"
  by (induction rule: reachable.induct) (simp_all add: wf_init wf_step)

lemma members_subscribed:
  assumes "reachable s" and "map_of (users s) c = Some v"
  shows "c \<in> rooms s (room v)"
  using reachable_wf [OF assms(1)] assms(2) unfolding wf_def by blast

lemma registered_connected:
  assumes "reachable s" and "map_of (users s) c = Some v"
  shows "c \<in> sockets s"
proof -
  from assms(2) have "c \<in> fst ` set (users s)"
    by (metis map_of_eq_None_iff option.distinct(1))
  with reachable_wf [OF assms(1)] show ?thesis
    unfolding wf_def by blast
qed

lemma count_key_le: "distinct (map fst al) \<Longrightarrow> length (filter (\<lambda>e. fst e = k) al) \<le> 1"
proof (induction al)
  case Nil
  then show ?case by simp
next
  case (Cons x al)
  show ?case
  proof (cases "fst x = k")
    case True
    with Cons.prems have "k \<notin> fst ` set al"
      by simp
    then have "filter (\<lambda>e. fst e = k) al = []"
      unfolding filter_empty_conv by (metis imageI)
    with True show ?thesis by simp
  next
    case False
    with Cons show ?thesis by simp
  qed
qed

lemma count_key_ge: "k \<in> fst ` set al \<Longrightarrow> 1 \<le> length (filter (\<lambda>e. fst e = k) al)"
  by (induction al) auto

lemma length_update:
  "length (AList.update k v al) = (if k \<in> fst ` set al then length al else Suc (length al))"
  by (induction al) auto

section \<open>Facts about the scenario\<close>

lemma js_get_payload:
  "js_get (join_payload u r) (lit ''username'') = u"
  "js_get (join_payload u r) (lit ''room'') = r"
  "js_get (text_payload t) (lit ''text'') = t"
  "js_get (media_payload l m) (lit ''url'') = l"
  "js_get (media_payload l m) (lit ''mimetype'') = m"
  "\<not> nullish (join_payload u r)" "\<not> nullish (text_payload t)" "\<not> nullish (media_payload l m)"
  by (simp_all add: join_payload_def text_payload_def media_payload_def lit_def)

lemma names_lit:
  "sockA \<noteq> sockB" "sockB \<noteq> sockA" "sockA \<noteq> lobby" "sockB \<noteq> lobby" "sockA \<noteq> den" "sockB \<noteq> den"
  "lobby \<noteq> den" "den \<noteq> lobby" "lobby \<noteq> sockA" "lobby \<noteq> sockB" "den \<noteq> sockA" "den \<noteq> sockB"
  "alice \<noteq> bob" "bob \<noteq> alice" "hi \<noteq> bob"
  by (simp_all add: sockA_def sockB_def lobby_def den_def alice_def bob_def hi_def lit_def)

lemma names_trim:
  "trim (take 30 alice) = alice" "trim (take 30 bob) = bob"
  "trim (take 30 lobby) = lobby" "trim (take 30 den) = den"
  "trim (take 2000 hi) = hi" "trim (take 2000 bob) = bob"
  by (simp_all add: trim_def isWhiteSpace_def lobby_def den_def alice_def bob_def hi_def lit_def)

lemma names_safe:
  "safe 30 (JStr alice) = Inr alice" "safe 30 (JStr bob) = Inr bob"
  "safe 30 (JStr lobby) = Inr lobby" "safe 30 (JStr den) = Inr den"
  "safe 2000 (JStr hi) = Inr hi" "safe 2000 (JStr bob) = Inr bob"
  by (simp_all add: safe_def slice0_def names_trim)

lemma names_nonempty:
  "alice \<noteq> []" "bob \<noteq> []" "lobby \<noteq> []" "den \<noteq> []" "hi \<noteq> []"
  by (simp_all add: lobby_def den_def alice_def bob_def hi_def lit_def)

lemma joined_lit: "bob @ lit '' joined the room'' = lit ''bob joined the room''"
  by (simp add: bob_def lit_def)

lemma left_lit: "bob @ lit '' left the room'' = lit ''bob left the room''"
  by (simp add: bob_def lit_def)

lemma message_id_lit:
  "message_id sid 4000 = sid @ lit ''-4000''"
  "message_id sid 4001 = sid @ lit ''-4001''"
  by (simp_all add: message_id_def clock_lit lit_def)

lemma on_join_strings:
  assumes "safe 30 (JStr x) = Inr a" and "safe 30 (JStr y) = Inr b" and "a \<noteq> []" and "b \<noteq> []"
  shows "on_join sid (join_payload (JStr x) (JStr y)) now s =
     Inr (joined sid a b s,
       [socket_to_emit (joined sid a b s) sid b (System (a @ lit '' joined the room'') now),
        io_to_emit (joined sid a b s) b (RoomUsers (getRoomUsers (users (joined sid a b s)) b))])"
proof -
  have "x \<noteq> []" and "y \<noteq> []"
    using assms by (auto simp: safe_def slice0_def trim_def)
  then show ?thesis
    using assms by (simp add: on_join_def js_get_payload Let_def joined_def)
qed

lemma alice_joined_state:
  "users alice_joined = [(sockA, \<lparr>username = alice, room = lobby\<rparr>)]"
  "sockets alice_joined = {sockA}"
  "rooms alice_joined lobby = {sockA}"
  by (simp_all add: alice_joined_def joined_def socket_join_def connect_def init_def names_lit)

lemma bob_connected_state:
  "users bob_connected = [(sockA, \<lparr>username = alice, room = lobby\<rparr>)]"
  "sockets bob_connected = {sockA, sockB}"
  "rooms bob_connected lobby = {sockA}"
  by (auto simp: bob_connected_def connect_def alice_joined_state names_lit)

lemma two_in_lobby_state:
  "users two_in_lobby =
     [(sockA, \<lparr>username = alice, room = lobby\<rparr>), (sockB, \<lparr>username = bob, room = lobby\<rparr>)]"
  "sockets two_in_lobby = {sockA, sockB}"
  "rooms two_in_lobby lobby = {sockA, sockB}"
  "rooms two_in_lobby den = {}"
  by (auto simp: two_in_lobby_def joined_def socket_join_def bob_connected_state names_lit
      bob_connected_def connect_def alice_joined_def init_def)

lemma bob_moved_state:
  "users bob_moved =
     [(sockA, \<lparr>username = alice, room = lobby\<rparr>), (sockB, \<lparr>username = bob, room = den\<rparr>)]"
  "sockets bob_moved = {sockA, sockB}"
  "rooms bob_moved lobby = {sockA, sockB}"
  "rooms bob_moved den = {sockB}"
  by (auto simp: bob_moved_def joined_def socket_join_def two_in_lobby_state names_lit)

lemma reachable_alice_joined: "reachable alice_joined"
proof -
  have "step init (Connect sockA) = Inr (connect sockA init, [])"
    by (simp add: init_def)
  with reachable_init have c: "reachable (connect sockA init)"
    by (rule reachable_step)
  have "sockA \<in> sockets (connect sockA init)"
    by (simp add: connect_def)
  then have "step (connect sockA init) (Join sockA (join_payload (JStr alice) (JStr lobby)) 1000) =
      on_join sockA (join_payload (JStr alice) (JStr lobby)) 1000 (connect sockA init)"
    by simp
  also note on_join_strings [OF names_safe(1) names_safe(3) names_nonempty(1) names_nonempty(3)]
  finally show ?thesis
    unfolding alice_joined_def using c reachable_step by blast
qed

lemma reachable_bob_connected: "reachable bob_connected"
proof -
  have "step alice_joined (Connect sockB) = Inr (bob_connected, [])"
    by (simp add: alice_joined_state bob_connected_def names_lit)
  with reachable_alice_joined show ?thesis
    by (rule reachable_step)
qed

lemma step_bob_joins:
  "step bob_connected (Join sockB (join_payload (JStr bob) (JStr lobby)) 2000) =
     Inr (two_in_lobby,
       [socket_to_emit two_in_lobby sockB lobby (System (bob @ lit '' joined the room'') 2000),
        io_to_emit two_in_lobby lobby (RoomUsers (getRoomUsers (users two_in_lobby) lobby))])"
proof -
  have "step bob_connected (Join sockB (join_payload (JStr bob) (JStr lobby)) 2000) =
      on_join sockB (join_payload (JStr bob) (JStr lobby)) 2000 bob_connected"
    by (simp add: bob_connected_state)
  also note on_join_strings [OF names_safe(2) names_safe(3) names_nonempty(2) names_nonempty(3)]
  finally show ?thesis
    unfolding two_in_lobby_def .
qed

lemma reachable_two_in_lobby: "reachable two_in_lobby"
  using reachable_bob_connected step_bob_joins by (rule reachable_step)

lemma step_bob_moves:
  "step two_in_lobby (Join sockB (join_payload (JStr bob) (JStr den)) 3000) =
     Inr (bob_moved,
       [socket_to_emit bob_moved sockB den (System (bob @ lit '' joined the room'') 3000),
        io_to_emit bob_moved den (RoomUsers (getRoomUsers (users bob_moved) den))])"
proof -
  have "step two_in_lobby (Join sockB (join_payload (JStr bob) (JStr den)) 3000) =
      on_join sockB (join_payload (JStr bob) (JStr den)) 3000 two_in_lobby"
    by (simp add: two_in_lobby_state)
  also note on_join_strings [OF names_safe(2) names_safe(4) names_nonempty(2) names_nonempty(4)]
  finally show ?thesis
    unfolding bob_moved_def .
qed

lemma reachable_bob_moved: "reachable bob_moved"
  using reachable_two_in_lobby step_bob_moves by (rule reachable_step)

section \<open>C1: one session per connection\<close>

text \<open>
  C1. In every reachable state the registry holds at most one entry for a connection. A
  successful join (one that produced its broadcasts) leaves exactly one entry for the
  joining connection, and that entry is the new pair of username and room, nothing of the
  old one; when the connection already had an entry, the keys of the registry are the same
  as before (no second entry), and the entries of all other connections are untouched.
\<close>

theorem C1_one_session_per_connection:
  assumes "reachable s"
  shows "length (filter (\<lambda>e. fst e = c) (users s)) \<le> 1 \<and>
         (\<forall>s' out. step s (Join sid p now) = Inr (s', out) \<and> out \<noteq> [] \<longrightarrow>
            (\<exists>a b. safe 30 (js_get p (lit ''username'')) = Inr a \<and>
                   safe 30 (js_get p (lit ''room'')) = Inr b \<and>
                   map_of (users s') sid = Some \<lparr>username = a, room = b\<rparr>) \<and>
            length (filter (\<lambda>e. fst e = sid) (users s')) = 1 \<and>
            (map_of (users s) sid \<noteq> None \<longrightarrow> map fst (users s') = map fst (users s)) \<and>
            (\<forall>k. k \<noteq> sid \<longrightarrow> map_of (users s') k = map_of (users s) k))"
proof (intro conjI allI impI)
  from assms have "distinct (map fst (users s))"
    using reachable_wf wf_def by blast
  then show "length (filter (\<lambda>e. fst e = c) (users s)) \<le> 1"
    by (rule count_key_le)
next
  fix s' out
  assume a: "step s (Join sid p now) = Inr (s', out) \<and> out \<noteq> []"
  then have oj: "on_join sid p now s = Inr (s', out)" and ne: "out \<noteq> []"
    by (auto split: if_splits)
  from on_join_success [OF oj ne] obtain a b
    where ab: "safe 30 (js_get p (lit ''username'')) = Inr a"
      "safe 30 (js_get p (lit ''room'')) = Inr b" and s': "s' = joined sid a b s"
    by blast
  have t: "users s' = AList.update sid \<lparr>username = a, room = b\<rparr> (users s)"
    unfolding s' by (simp add: joined_def socket_join_def)
  have reg: "map_of (users s') sid = Some \<lparr>username = a, room = b\<rparr>"
    unfolding t by (simp add: update_conv')
  with ab show "\<exists>a b. safe 30 (js_get p (lit ''username'')) = Inr a \<and>
      safe 30 (js_get p (lit ''room'')) = Inr b \<and>
      map_of (users s') sid = Some \<lparr>username = a, room = b\<rparr>"
    by blast
  have "reachable s'"
    using assms a by (blast intro: reachable_step)
  then have "distinct (map fst (users s'))"
    using reachable_wf wf_def by blast
  then have "length (filter (\<lambda>e. fst e = sid) (users s')) \<le> 1"
    by (rule count_key_le)
  moreover have "sid \<in> fst ` set (users s')"
    unfolding t by (simp add: dom_update)
  then have "1 \<le> length (filter (\<lambda>e. fst e = sid) (users s'))"
    by (rule count_key_ge)
  ultimately show "length (filter (\<lambda>e. fst e = sid) (users s')) = 1"
    by simp
  show "map fst (users s') = map fst (users s)" if "map_of (users s) sid \<noteq> None"
  proof -
    from that have "sid \<in> fst ` set (users s)"
      by (simp add: map_of_eq_None_iff)
    then show ?thesis
      unfolding t by (simp add: update_keys)
  qed
  show "map_of (users s') k = map_of (users s) k" if "k \<noteq> sid" for k
    unfolding t using that by (simp add: update_conv')
qed

theorem C1_one_session_per_connection_witness:
  "(\<exists>out. step two_in_lobby (Join sockB (join_payload (JStr bob) (JStr den)) 3000) =
      Inr (bob_moved, out) \<and> out \<noteq> []) \<and>
   map_of (users two_in_lobby) sockB = Some \<lparr>username = bob, room = lobby\<rparr> \<and>
   map_of (users bob_moved) sockB = Some \<lparr>username = bob, room = den\<rparr> \<and>
   length (filter (\<lambda>e. fst e = sockB) (users bob_moved)) = 1 \<and>
   map fst (users bob_moved) = map fst (users two_in_lobby)"
proof -
  have old: "map_of (users two_in_lobby) sockB = Some \<lparr>username = bob, room = lobby\<rparr>"
    by (simp add: two_in_lobby_state names_lit)
  have new: "map_of (users bob_moved) sockB = Some \<lparr>username = bob, room = den\<rparr>"
    by (simp add: bob_moved_state names_lit)
  from C1_one_session_per_connection [OF reachable_two_in_lobby, THEN conjunct2, rule_format,
      OF conjI, OF step_bob_moves]
  have "length (filter (\<lambda>e. fst e = sockB) (users bob_moved)) = 1 \<and>
      (map_of (users two_in_lobby) sockB \<noteq> None \<longrightarrow>
         map fst (users bob_moved) = map fst (users two_in_lobby))"
    by simp
  with old new step_bob_moves show ?thesis
    by simp
qed

section \<open>C2: the roster is the registry, filtered\<close>

lemma delete_filter: "AList.delete k al = filter (\<lambda>e. fst e \<noteq> k) al"
  by (induction al) auto

lemma members_keys:
  assumes "distinct (map fst al)"
  shows "fst ` set (filter (\<lambda>e. room (snd e) = R) al) =
         {c. \<exists>u. map_of al c = Some u \<and> room u = R}"
proof (intro set_eqI iffI)
  fix c
  assume "c \<in> fst ` set (filter (\<lambda>e. room (snd e) = R) al)"
  then obtain u where "(c, u) \<in> set al" "room u = R"
    by auto
  with assms show "c \<in> {c. \<exists>u. map_of al c = Some u \<and> room u = R}"
    by auto
next
  fix c
  assume "c \<in> {c. \<exists>u. map_of al c = Some u \<and> room u = R}"
  then obtain u where "map_of al c = Some u" "room u = R"
    by auto
  then have "(c, u) \<in> set (filter (\<lambda>e. room (snd e) = R) al)"
    by (simp add: map_of_SomeD)
  then show "c \<in> fst ` set (filter (\<lambda>e. room (snd e) = R) al)"
    by (rule image_eqI [rotated]) simp
qed

lemma usernames_of_members:
  "(username \<circ> snd) ` {e \<in> set al. room (snd e) = R} =
     {username u |c u. (c, u) \<in> set al \<and> room u = R}"
proof (intro set_eqI iffI)
  fix x
  assume "x \<in> (username \<circ> snd) ` {e \<in> set al. room (snd e) = R}"
  then obtain e where "e \<in> set al" "room (snd e) = R" "x = username (snd e)"
    by auto
  then have "(fst e, snd e) \<in> set al \<and> room (snd e) = R \<and> x = username (snd e)"
    by simp
  then show "x \<in> {username u |c u. (c, u) \<in> set al \<and> room u = R}"
    by blast
next
  fix x
  assume "x \<in> {username u |c u. (c, u) \<in> set al \<and> room u = R}"
  then obtain c u where "(c, u) \<in> set al" "room u = R" "x = username u"
    by blast
  then have "(c, u) \<in> {e \<in> set al. room (snd e) = R}" "x = (username \<circ> snd) (c, u)"
    by simp_all
  then show "x \<in> (username \<circ> snd) ` {e \<in> set al. room (snd e) = R}"
    by blast
qed

lemma members_count:
  assumes "distinct (map fst al)"
  shows "length (filter (\<lambda>e. room (snd e) = R) al) =
         card {c. \<exists>u. map_of al c = Some u \<and> room u = R}"
proof -
  have "distinct (map fst (filter (\<lambda>e. room (snd e) = R) al))"
    using assms by (simp add: distinct_map_filter)
  from distinct_card [OF this]
  have "card (fst ` set (filter (\<lambda>e. room (snd e) = R) al)) =
      length (filter (\<lambda>e. room (snd e) = R) al)"
    by simp
  then show ?thesis
    using members_keys [OF assms] by simp
qed

text \<open>
  C2. In every reachable state, \<open>getRoomUsers R\<close> lists the usernames of exactly the
  connections whose registry entry has room \<open>R\<close>, one item for each such connection. A
  connection that is not connected has no entry; the disconnect of a connection returns
  a state in which its entry is gone and the roster of every room is made of the entries
  of the others.
\<close>

theorem C2_members_of_room:
  assumes "reachable s"
  shows "set (getRoomUsers (users s) R) =
           {username u |c u. map_of (users s) c = Some u \<and> room u = R} \<and>
         length (getRoomUsers (users s) R) =
           card {c. \<exists>u. map_of (users s) c = Some u \<and> room u = R} \<and>
         (\<forall>k. k \<notin> sockets s \<longrightarrow> map_of (users s) k = None) \<and>
         (c \<in> sockets s \<longrightarrow>
            (\<exists>s' out. step s (Disconnect c now) = Inr (s', out) \<and>
               map_of (users s') c = None \<and>
               getRoomUsers (users s') R =
                 map (username \<circ> snd)
                   (filter (\<lambda>e. fst e \<noteq> c \<and> room (snd e) = R) (users s))))"
proof (intro conjI impI allI)
  from assms have wf: "wf s"
    by (rule reachable_wf)
  then have d: "distinct (map fst (users s))"
    by (simp add: wf_def)
  show "set (getRoomUsers (users s) R) =
      {username u |c u. map_of (users s) c = Some u \<and> room u = R}"
  proof -
    have "set (getRoomUsers (users s) R) =
        (username \<circ> snd) ` {e \<in> set (users s). room (snd e) = R}"
      by (simp add: getRoomUsers_eq)
    also have "\<dots> = {username u |c u. (c, u) \<in> set (users s) \<and> room u = R}"
      by (rule usernames_of_members)
    also have "\<dots> = {username u |c u. map_of (users s) c = Some u \<and> room u = R}"
      using d by simp
    finally show ?thesis .
  qed
  show "length (getRoomUsers (users s) R) =
      card {c. \<exists>u. map_of (users s) c = Some u \<and> room u = R}"
    using members_count [OF d] by (simp add: getRoomUsers_eq)
  show "map_of (users s) k = None" if "k \<notin> sockets s" for k
  proof -
    from wf that have "k \<notin> fst ` set (users s)"
      unfolding wf_def by blast
    then show ?thesis
      by (simp add: map_of_eq_None_iff)
  qed
next
  assume live: "c \<in> sockets s"
  let ?t = "s\<lparr>users := AList.delete c (users s), rooms := (\<lambda>r. rooms s r - {c}),
      sockets := sockets s - {c}\<rparr>"
  from disconnect_returns [of c now s] live obtain out
    where "step s (Disconnect c now) = Inr (?t, out)"
    by auto
  moreover have "map_of (users ?t) c = None"
    by (simp add: delete_conv')
  moreover have "getRoomUsers (users ?t) R =
      map (username \<circ> snd) (filter (\<lambda>e. fst e \<noteq> c \<and> room (snd e) = R) (users s))"
    by (simp add: getRoomUsers_eq delete_filter conj_commute)
  ultimately show "\<exists>s' out. step s (Disconnect c now) = Inr (s', out) \<and>
      map_of (users s') c = None \<and>
      getRoomUsers (users s') R =
        map (username \<circ> snd) (filter (\<lambda>e. fst e \<noteq> c \<and> room (snd e) = R) (users s))"
    by blast
qed

theorem C2_members_of_room_witness:
  "sockB \<in> sockets two_in_lobby \<and>
   getRoomUsers (users two_in_lobby) lobby = [alice, bob] \<and>
   (\<exists>s' out. step two_in_lobby (Disconnect sockB 4000) = Inr (s', out) \<and>
      map_of (users s') sockB = None \<and> getRoomUsers (users s') lobby = [alice])"
proof -
  have live: "sockB \<in> sockets two_in_lobby"
    by (simp add: two_in_lobby_state)
  have before: "getRoomUsers (users two_in_lobby) lobby = [alice, bob]"
    by (simp add: getRoomUsers_def two_in_lobby_state)
  have rest: "map (username \<circ> snd)
      (filter (\<lambda>e. fst e \<noteq> sockB \<and> room (snd e) = lobby) (users two_in_lobby)) = [alice]"
    by (simp add: two_in_lobby_state names_lit)
  from C2_members_of_room [OF reachable_two_in_lobby, of lobby sockB 4000,
      THEN conjunct2, THEN conjunct2, THEN conjunct2, rule_format, OF live]
  have "\<exists>s' out. step two_in_lobby (Disconnect sockB 4000) = Inr (s', out) \<and>
      map_of (users s') sockB = None \<and> getRoomUsers (users s') lobby = [alice]"
    unfolding rest .
  with live before show ?thesis
    by (intro conjI)
qed

section \<open>C3: who receives a broadcast\<close>

text \<open>
  C3 says that a broadcast to a room reaches exactly the connections whose session is in
  that room. The handlers address a broadcast to the sockets subscribed to the room, and
  \<open>on_join\<close> subscribes without leaving the room of the overwritten session. In the
  scenario, after \<open>sockB\<close> has moved from \<open>lobby\<close> to \<open>den\<close>, its session is in \<open>den\<close> and
  the roster of \<open>lobby\<close> is \<open>[alice]\<close>, yet a message of \<open>sockA\<close> to \<open>lobby\<close> is delivered to
  \<open>sockB\<close> as well.
\<close>

theorem C3_old_room_still_delivered:
  "map_of (users bob_moved) sockB = Some \<lparr>username = bob, room = den\<rparr> \<and>
   den \<noteq> lobby \<and>
   getRoomUsers (users bob_moved) lobby = [alice] \<and>
   step bob_moved (Message sockA (text_payload (JStr hi)) 4000 4000) =
     Inr (bob_moved,
       [\<lparr>to_room = lobby, except = None, recipients = {sockA, sockB},
         packet = ChatMessage (sockA @ lit ''-4000'') alice hi 4000\<rparr>])"
  by (simp add: bob_moved_state names_lit getRoomUsers_def on_message_def io_to_emit_def
      js_get_payload names_safe names_nonempty message_id_lit)

section \<open>C7: what a successful join sends\<close>

text \<open>
  C7. A successful join emits two packets, in this order: the notice that the user joined
  the room, to the sockets subscribed to the new room but the joining one, and the roster
  of the new room, computed after the registry was written, to all sockets subscribed to
  the new room. The joining connection does not get the notice and gets the roster; every
  other connection whose session is in the new room gets both.
\<close>

theorem C7_join_broadcasts:
  assumes "reachable s" and "step s (Join sid p now) = Inr (s', out)" and "out \<noteq> []"
  shows "\<exists>a b. safe 30 (js_get p (lit ''username'')) = Inr a \<and>
           safe 30 (js_get p (lit ''room'')) = Inr b \<and>
           out =
             [\<lparr>to_room = b, except = Some sid, recipients = rooms s' b - {sid},
                packet = System (a @ lit '' joined the room'') now\<rparr>,
              \<lparr>to_room = b, except = None, recipients = rooms s' b,
                packet = RoomUsers (getRoomUsers (users s') b)\<rparr>] \<and>
           map_of (users s') sid = Some \<lparr>username = a, room = b\<rparr> \<and>
           sid \<notin> recipients (out ! 0) \<and>
           (\<forall>c v. c \<noteq> sid \<and> map_of (users s') c = Some v \<and> room v = b \<longrightarrow>
              c \<in> recipients (out ! 0)) \<and>
           sid \<in> recipients (out ! 1) \<and>
           (\<forall>c v. map_of (users s') c = Some v \<and> room v = b \<longrightarrow>
              c \<in> recipients (out ! 1))"
proof -
  from assms(2,3) have oj: "on_join sid p now s = Inr (s', out)"
    by (auto split: if_splits)
  from on_join_success [OF oj assms(3)] obtain a b
    where ab: "safe 30 (js_get p (lit ''username'')) = Inr a"
      "safe 30 (js_get p (lit ''room'')) = Inr b"
    and s': "s' = joined sid a b s"
    and out0: "out = [socket_to_emit s' sid b (System (a @ lit '' joined the room'') now),
        io_to_emit s' b (RoomUsers (getRoomUsers (users s') b))]"
    by blast
  have out: "out =
      [\<lparr>to_room = b, except = Some sid, recipients = rooms s' b - {sid},
         packet = System (a @ lit '' joined the room'') now\<rparr>,
       \<lparr>to_room = b, except = None, recipients = rooms s' b,
         packet = RoomUsers (getRoomUsers (users s') b)\<rparr>]"
    using out0 by (simp add: socket_to_emit_def io_to_emit_def)
  have reg: "map_of (users s') sid = Some \<lparr>username = a, room = b\<rparr>"
    unfolding s' by (simp add: joined_def socket_join_def update_conv')
  have r': "reachable s'"
    using assms(1,2) by (rule reachable_step)
  have sub: "c \<in> rooms s' b" if "map_of (users s') c = Some v" "room v = b" for c v
    using members_subscribed [OF r' that(1)] that(2) by simp
  have rec0: "recipients (out ! 0) = rooms s' b - {sid}"
    and rec1: "recipients (out ! 1) = rooms s' b"
    by (simp_all add: out)
  have "sid \<notin> recipients (out ! 0)"
    unfolding rec0 by simp
  moreover have "\<forall>c v. c \<noteq> sid \<and> map_of (users s') c = Some v \<and> room v = b \<longrightarrow>
      c \<in> recipients (out ! 0)"
    unfolding rec0 using sub by simp
  moreover have "sid \<in> recipients (out ! 1)"
    unfolding rec1 using sub [OF reg] by simp
  moreover have "\<forall>c v. map_of (users s') c = Some v \<and> room v = b \<longrightarrow>
      c \<in> recipients (out ! 1)"
    unfolding rec1 using sub by simp
  ultimately show ?thesis
    using ab out reg by blast
qed

theorem C7_join_broadcasts_witness:
  "step bob_connected (Join sockB (join_payload (JStr bob) (JStr lobby)) 2000) =
     Inr (two_in_lobby,
      [\<lparr>to_room = lobby, except = Some sockB, recipients = {sockA},
         packet = System (lit ''bob joined the room'') 2000\<rparr>,
       \<lparr>to_room = lobby, except = None, recipients = {sockA, sockB},
         packet = RoomUsers [alice, bob]\<rparr>])"
proof -
  obtain out where st: "step bob_connected (Join sockB (join_payload (JStr bob) (JStr lobby)) 2000) =
      Inr (two_in_lobby, out)" and ne: "out \<noteq> []"
    using step_bob_joins by simp
  have minus: "{sockA, sockB} - {sockB} = {sockA}"
    using names_lit by auto
  have roster: "getRoomUsers [(sockA, \<lparr>username = alice, room = lobby\<rparr>),
      (sockB, \<lparr>username = bob, room = lobby\<rparr>)] lobby = [alice, bob]"
    by (simp add: getRoomUsers_def)
  from C7_join_broadcasts [OF reachable_bob_connected st ne]
  have "out =
      [\<lparr>to_room = lobby, except = Some sockB, recipients = {sockA},
         packet = System (lit ''bob joined the room'') 2000\<rparr>,
       \<lparr>to_room = lobby, except = None, recipients = {sockA, sockB},
         packet = RoomUsers [alice, bob]\<rparr>]"
    by (auto simp: js_get_payload names_safe joined_lit roster two_in_lobby_state minus)
  with st show ?thesis
    by simp
qed

section \<open>C8: disconnect\<close>

text \<open>
  C8. When a connected socket closes, the handler returns. If the socket had a registry
  entry, the entry is deleted (the entries of the others stay), and two packets are
  emitted, in this order: the notice that the user left, to the sockets subscribed to its
  room but itself, and the roster of that room, computed after the deletion from the
  entries of the other connections, to the sockets subscribed to the room; every
  connection whose session is still in the room gets both, the closed socket gets
  neither. If it had no entry, nothing is emitted and the registry stays as it was.
\<close>

theorem C8_disconnect:
  assumes "reachable s" and "sid \<in> sockets s"
  shows "\<exists>s' out. step s (Disconnect sid now) = Inr (s', out) \<and>
           (\<forall>u. map_of (users s) sid = Some u \<longrightarrow>
              map_of (users s') sid = None \<and>
              (\<forall>c. c \<noteq> sid \<longrightarrow> map_of (users s') c = map_of (users s) c) \<and>
              out =
                [\<lparr>to_room = room u, except = Some sid,
                   recipients = rooms s' (room u) - {sid},
                   packet = System (username u @ lit '' left the room'') now\<rparr>,
                 \<lparr>to_room = room u, except = None,
                   recipients = rooms s' (room u),
                   packet = RoomUsers (getRoomUsers (users s') (room u))\<rparr>] \<and>
              getRoomUsers (users s') (room u) =
                map (username \<circ> snd)
                  (filter (\<lambda>e. fst e \<noteq> sid \<and> room (snd e) = room u) (users s)) \<and>
              sid \<notin> rooms s' (room u) \<and>
              (\<forall>c v. map_of (users s') c = Some v \<and> room v = room u \<longrightarrow>
                 c \<in> rooms s' (room u) - {sid})) \<and>
           (map_of (users s) sid = None \<longrightarrow> out = [] \<and> users s' = users s)"
proof -
  let ?t = "s\<lparr>users := AList.delete sid (users s), rooms := (\<lambda>r. rooms s r - {sid}),
      sockets := sockets s - {sid}\<rparr>"
  from disconnect_returns [of sid now s] obtain out
    where od: "on_disconnect sid now (leave_all sid s) = Inr (?t, out)"
    by blast
  with assms(2) have st: "step s (Disconnect sid now) = Inr (?t, out)"
    by simp
  have r': "reachable ?t"
    using assms(1) st by (rule reachable_step)
  have gone: "map_of (users ?t) sid = None"
    by (simp add: delete_conv')
  have others: "\<forall>c. c \<noteq> sid \<longrightarrow> map_of (users ?t) c = map_of (users s) c"
    by (simp add: delete_conv')
  have roster: "getRoomUsers (users ?t) (room u) =
      map (username \<circ> snd) (filter (\<lambda>e. fst e \<noteq> sid \<and> room (snd e) = room u) (users s))" for u
    by (simp add: getRoomUsers_eq delete_filter conj_commute)
  have notin: "sid \<notin> rooms ?t (room u)" for u
    by simp
  have members: "\<forall>c v. map_of (users ?t) c = Some v \<and> room v = room u \<longrightarrow>
      c \<in> rooms ?t (room u) - {sid}" for u
  proof (intro allI impI)
    fix c v
    assume cv: "map_of (users ?t) c = Some v \<and> room v = room u"
    with gone have "c \<noteq> sid"
      by auto
    moreover from cv have "c \<in> rooms ?t (room u)"
      using members_subscribed [OF r', of c v] by simp
    ultimately show "c \<in> rooms ?t (room u) - {sid}"
      by simp
  qed
  have sent: "out =
      [\<lparr>to_room = room u, except = Some sid, recipients = rooms ?t (room u) - {sid},
         packet = System (username u @ lit '' left the room'') now\<rparr>,
       \<lparr>to_room = room u, except = None, recipients = rooms ?t (room u),
         packet = RoomUsers (getRoomUsers (users ?t) (room u))\<rparr>]"
    if "map_of (users s) sid = Some u" for u
    using od that
    by (simp add: on_disconnect_def leave_all_def Let_def socket_to_emit_def io_to_emit_def)
  have none: "out = [] \<and> users ?t = users s" if "map_of (users s) sid = None"
  proof -
    from that have "sid \<notin> fst ` set (users s)"
      by (simp add: map_of_eq_None_iff)
    then have "AList.delete sid (users s) = users s"
      by simp
    moreover from od that have "out = []"
      by (simp add: on_disconnect_def leave_all_def)
    ultimately show ?thesis
      by simp
  qed
  have body: "step s (Disconnect sid now) = Inr (?t, out) \<and>
           (\<forall>u. map_of (users s) sid = Some u \<longrightarrow>
              map_of (users ?t) sid = None \<and>
              (\<forall>c. c \<noteq> sid \<longrightarrow> map_of (users ?t) c = map_of (users s) c) \<and>
              out =
                [\<lparr>to_room = room u, except = Some sid,
                   recipients = rooms ?t (room u) - {sid},
                   packet = System (username u @ lit '' left the room'') now\<rparr>,
                 \<lparr>to_room = room u, except = None,
                   recipients = rooms ?t (room u),
                   packet = RoomUsers (getRoomUsers (users ?t) (room u))\<rparr>] \<and>
              getRoomUsers (users ?t) (room u) =
                map (username \<circ> snd)
                  (filter (\<lambda>e. fst e \<noteq> sid \<and> room (snd e) = room u) (users s)) \<and>
              sid \<notin> rooms ?t (room u) \<and>
              (\<forall>c v. map_of (users ?t) c = Some v \<and> room v = room u \<longrightarrow>
                 c \<in> rooms ?t (room u) - {sid})) \<and>
           (map_of (users s) sid = None \<longrightarrow> out = [] \<and> users ?t = users s)"
  proof (intro conjI allI impI)
    show "step s (Disconnect sid now) = Inr (?t, out)"
      by (rule st)
    show "map_of (users ?t) sid = None"
      by (rule gone)
    show "map_of (users ?t) c = map_of (users s) c" if "c \<noteq> sid" for c
      using others that by blast
    show "out =
        [\<lparr>to_room = room u, except = Some sid, recipients = rooms ?t (room u) - {sid},
           packet = System (username u @ lit '' left the room'') now\<rparr>,
         \<lparr>to_room = room u, except = None, recipients = rooms ?t (room u),
           packet = RoomUsers (getRoomUsers (users ?t) (room u))\<rparr>]"
      if "map_of (users s) sid = Some u" for u
      using that by (rule sent)
    show "getRoomUsers (users ?t) (room u) =
        map (username \<circ> snd) (filter (\<lambda>e. fst e \<noteq> sid \<and> room (snd e) = room u) (users s))" for u
      by (rule roster)
    show "sid \<notin> rooms ?t (room u)" for u
      by (rule notin)
    show "c \<in> rooms ?t (room u) - {sid}"
      if "map_of (users ?t) c = Some v \<and> room v = room u" for c v u
      using members [of u] that by blast
    show "out = []" if "map_of (users s) sid = None"
      using none [OF that] by simp
    show "users ?t = users s" if "map_of (users s) sid = None"
      using none [OF that] by simp
  qed
  show ?thesis
    apply (rule exI [of _ "?t"])
    apply (rule exI [of _ out])
    apply (rule body)
    done
qed

theorem C8_disconnect_witness:
  "(\<exists>s' out. step two_in_lobby (Disconnect sockB 5000) = Inr (s', out) \<and>
      map_of (users two_in_lobby) sockB = Some \<lparr>username = bob, room = lobby\<rparr> \<and>
      users s' = [(sockA, \<lparr>username = alice, room = lobby\<rparr>)] \<and>
      out =
        [\<lparr>to_room = lobby, except = Some sockB, recipients = {sockA},
           packet = System (lit ''bob left the room'') 5000\<rparr>,
         \<lparr>to_room = lobby, except = None, recipients = {sockA},
           packet = RoomUsers [alice]\<rparr>]) \<and>
   (\<exists>s' out. step (connect sockA init) (Disconnect sockA 5000) = Inr (s', out) \<and>
      map_of (users (connect sockA init)) sockA = None \<and> out = [])"
proof -
  have j: "map_of (users two_in_lobby) sockB = Some \<lparr>username = bob, room = lobby\<rparr>"
    and l: "sockB \<in> sockets two_in_lobby"
    by (simp_all add: two_in_lobby_state names_lit)
  from C8_disconnect [OF reachable_two_in_lobby l, of 5000] obtain s' out
    where st: "step two_in_lobby (Disconnect sockB 5000) = Inr (s', out)"
      and sent: "out =
        [\<lparr>to_room = lobby, except = Some sockB, recipients = rooms s' lobby - {sockB},
           packet = System (bob @ lit '' left the room'') 5000\<rparr>,
         \<lparr>to_room = lobby, except = None, recipients = rooms s' lobby,
           packet = RoomUsers (getRoomUsers (users s') lobby)\<rparr>]"
    using j by auto
  from st l have "on_disconnect sockB 5000 (leave_all sockB two_in_lobby) = Inr (s', out)"
    by simp
  from disconnect_state [OF this]
  have us: "users s' = [(sockA, \<lparr>username = alice, room = lobby\<rparr>)]"
    and rs: "rooms s' lobby = {sockA}"
    using names_lit by (auto simp: two_in_lobby_state)
  have minus: "{sockA} - {sockB} = {sockA}"
    using names_lit by auto
  have roster: "getRoomUsers [(sockA, \<lparr>username = alice, room = lobby\<rparr>)] lobby = [alice]"
    by (simp add: getRoomUsers_def)
  have "out =
     [\<lparr>to_room = lobby, except = Some sockB, recipients = {sockA},
        packet = System (lit ''bob left the room'') 5000\<rparr>,
      \<lparr>to_room = lobby, except = None, recipients = {sockA},
        packet = RoomUsers [alice]\<rparr>]"
    by (simp add: sent us rs minus roster left_lit)
  with st j us have first: "\<exists>s' out. step two_in_lobby (Disconnect sockB 5000) = Inr (s', out) \<and>
      map_of (users two_in_lobby) sockB = Some \<lparr>username = bob, room = lobby\<rparr> \<and>
      users s' = [(sockA, \<lparr>username = alice, room = lobby\<rparr>)] \<and>
      out =
        [\<lparr>to_room = lobby, except = Some sockB, recipients = {sockA},
           packet = System (lit ''bob left the room'') 5000\<rparr>,
         \<lparr>to_room = lobby, except = None, recipients = {sockA},
           packet = RoomUsers [alice]\<rparr>]"
    by blast
  let ?c = "connect sockA init"
  have "step init (Connect sockA) = Inr (?c, [])"
    by (simp add: init_def)
  with reachable_init have rc: "reachable ?c"
    by (rule reachable_step)
  have lc: "sockA \<in> sockets ?c" and nc: "map_of (users ?c) sockA = None"
    by (simp_all add: init_def connect_def)
  from C8_disconnect [OF rc lc, of 5000] nc
  have "\<exists>s' out. step ?c (Disconnect sockA 5000) = Inr (s', out) \<and>
      map_of (users ?c) sockA = None \<and> out = []"
    by blast
  with first show ?thesis
    by (rule conjI)
qed

section \<open>C4: which joins succeed\<close>

lemma scenario_values:
  "safe 30 (JNum (number_of_int 0)) = Inr (lit ''0'')"
  "\<not> truthy (JNum (number_of_int 0))"
  "js_String no_string = Inl TypeError"
  "safe n no_string = Inl TypeError"
  "truthy no_string"
  by (simp_all add: safe_def slice0_def trim_def isWhiteSpace_def clock_lit no_string_def
      number_of_int_def lit_def)

text \<open>
  C4 as stated: a join succeeds exactly when both fields are non-empty after trimming and
  truncating, and a join that does not succeed is dropped silently with the registry
  unchanged. It fails in two ways. A field that is falsy without being an empty string
  is dropped by the first guard: the room \<open>0\<close> (a number) reads \<open>"0"\<close> after \<open>String\<close>, \<open>slice\<close> and
  \<open>trim\<close>. And a join is not always dropped silently: for a username whose \<open>String()\<close> throws,
  and for a join without payload, the handler throws.
\<close>

theorem C4_falsy_field_dropped:
  "safe 30 (JStr bob) = Inr bob \<and> bob \<noteq> [] \<and>
   safe 30 (JNum (number_of_int 0)) = Inr (lit ''0'') \<and> lit ''0'' \<noteq> [] \<and>
   on_join sockB (join_payload (JStr bob) (JNum (number_of_int 0))) 3000 two_in_lobby =
     Inr (two_in_lobby, []) \<and>
   on_join sockB (join_payload no_string (JStr lobby)) 3000 two_in_lobby = Inl TypeError \<and>
   on_join sockB JUndefined 3000 two_in_lobby = Inl TypeError"
  by (simp add: on_join_def js_get_payload names_safe names_nonempty scenario_values)
    (simp add: lit_def)

lemma on_join_returns:
  assumes "\<not> nullish p"
    and "truthy (js_get p (lit ''username'')) \<and> truthy (js_get p (lit ''room'')) \<longrightarrow>
         (\<exists>x. js_String (js_get p (lit ''username'')) = Inr x) \<and>
         (\<exists>y. js_String (js_get p (lit ''room'')) = Inr y)"
  shows "\<exists>s' out. on_join sid p now s = Inr (s', out)"
  using assms
  by (cases "js_String (js_get p (lit ''username''))";
      cases "js_String (js_get p (lit ''room''))")
    (auto simp: on_join_def Let_def safe_def)

text \<open>
  C4, amended. On a join whose payload is not \<open>null\<close> or \<open>undefined\<close> and for whose fields
  \<open>String()\<close> returns where the handler applies it, the handler returns. A join on which
  it returns succeeds (produces its broadcasts) exactly when both fields are truthy and
  their \<open>String()\<close> values are non-empty after truncation to 30 code units and trimming; for
  string fields that is: non-empty after truncation and trimming. A successful join stores
  the truncated and trimmed values, of at most 30 code units each; a join that returns
  without success emits nothing and leaves the whole state as it was.
\<close>

theorem C4_join_validation:
  "(\<not> nullish p \<and>
    (truthy (js_get p (lit ''username'')) \<and> truthy (js_get p (lit ''room'')) \<longrightarrow>
       (\<exists>x. js_String (js_get p (lit ''username'')) = Inr x) \<and>
       (\<exists>y. js_String (js_get p (lit ''room'')) = Inr y)) \<longrightarrow>
    (\<exists>s' out. on_join sid p now s = Inr (s', out))) \<and>
   (\<forall>s' out. on_join sid p now s = Inr (s', out) \<longrightarrow>
         (out \<noteq> []) =
           (truthy (js_get p (lit ''username'')) \<and> truthy (js_get p (lit ''room'')) \<and>
            (\<exists>a b. safe 30 (js_get p (lit ''username'')) = Inr a \<and>
                   safe 30 (js_get p (lit ''room'')) = Inr b \<and> a \<noteq> [] \<and> b \<noteq> [])) \<and>
         (out \<noteq> [] \<longrightarrow>
            (\<exists>a b. safe 30 (js_get p (lit ''username'')) = Inr a \<and>
                   safe 30 (js_get p (lit ''room'')) = Inr b \<and>
                   map_of (users s') sid = Some \<lparr>username = a, room = b\<rparr> \<and>
                   length a \<le> 30 \<and> length b \<le> 30)) \<and>
         (out = [] \<longrightarrow> s' = s) \<and>
         (\<forall>x y. js_get p (lit ''username'') = JStr x \<and> js_get p (lit ''room'') = JStr y \<longrightarrow>
            (out \<noteq> []) = (trim (take 30 x) \<noteq> [] \<and> trim (take 30 y) \<noteq> [])))"
proof (intro conjI impI allI)
  show "\<exists>s' out. on_join sid p now s = Inr (s', out)"
    if "\<not> nullish p \<and>
      (truthy (js_get p (lit ''username'')) \<and> truthy (js_get p (lit ''room'')) \<longrightarrow>
         (\<exists>x. js_String (js_get p (lit ''username'')) = Inr x) \<and>
         (\<exists>y. js_String (js_get p (lit ''room'')) = Inr y))"
    using that by (intro on_join_returns) blast+
next
  fix s' out
  assume assms: "on_join sid p now s = Inr (s', out)"
  let ?u = "js_get p (lit ''username'')" and ?r = "js_get p (lit ''room'')"
  show iff: "(out \<noteq> []) =
      (truthy ?u \<and> truthy ?r \<and>
       (\<exists>a b. safe 30 ?u = Inr a \<and> safe 30 ?r = Inr b \<and> a \<noteq> [] \<and> b \<noteq> []))"
  proof
    assume "out \<noteq> []"
    from on_join_success [OF assms this]
    show "truthy ?u \<and> truthy ?r \<and>
        (\<exists>a b. safe 30 ?u = Inr a \<and> safe 30 ?r = Inr b \<and> a \<noteq> [] \<and> b \<noteq> [])"
      by blast
  next
    assume "truthy ?u \<and> truthy ?r \<and>
        (\<exists>a b. safe 30 ?u = Inr a \<and> safe 30 ?r = Inr b \<and> a \<noteq> [] \<and> b \<noteq> [])"
    then show "out \<noteq> []"
      using assms by (auto simp: on_join_def Let_def split: if_splits)
  qed
  show "\<exists>a b. safe 30 ?u = Inr a \<and> safe 30 ?r = Inr b \<and>
      map_of (users s') sid = Some \<lparr>username = a, room = b\<rparr> \<and>
      length a \<le> 30 \<and> length b \<le> 30"
    if "out \<noteq> []"
  proof -
    from on_join_success [OF assms that] obtain a b
      where ab: "safe 30 ?u = Inr a" "safe 30 ?r = Inr b" and s': "s' = joined sid a b s"
      by blast
    have "map_of (users s') sid = Some \<lparr>username = a, room = b\<rparr>"
      unfolding s' by (simp add: joined_def socket_join_def update_conv')
    with ab length_safe_le [OF ab(1)] length_safe_le [OF ab(2)] show ?thesis
      by blast
  qed
  show "s' = s" if "out = []"
    using assms that by (simp add: on_join_drop)
  show "(out \<noteq> []) = (trim (take 30 x) \<noteq> [] \<and> trim (take 30 y) \<noteq> [])"
    if "?u = JStr x \<and> ?r = JStr y" for x y
  proof -
    have nz: "z \<noteq> []" if "trim (take 30 z) \<noteq> []" for z :: jsstring
      using that by (cases z) (simp_all add: trim_def)
    from that have "safe 30 ?u = Inr (trim (take 30 x))" and "safe 30 ?r = Inr (trim (take 30 y))"
      and "truthy ?u = (x \<noteq> [])" and "truthy ?r = (y \<noteq> [])"
      by (simp_all add: safe_def slice0_def)
    then show ?thesis
      unfolding iff using nz [of x] nz [of y] by auto
  qed
qed

theorem C4_join_validation_witness:
  "(\<exists>s' out. on_join sockB
      (join_payload (JStr (lit ''abcdefghijklmnopqrstuvwxyz0123456'')) (JStr lobby)) 3000
      two_in_lobby = Inr (s', out) \<and> out \<noteq> [] \<and>
      map_of (users s') sockB =
        Some \<lparr>username = lit ''abcdefghijklmnopqrstuvwxyz0123'', room = lobby\<rparr>) \<and>
   on_join sockB (join_payload (JStr (lit ''   '')) (JStr lobby)) 3000 two_in_lobby =
     Inr (two_in_lobby, [])"
proof -
  let ?u = "JStr (lit ''abcdefghijklmnopqrstuvwxyz0123456'')"
  let ?b = "JStr (lit ''   '')"
  have u: "safe 30 ?u = Inr (lit ''abcdefghijklmnopqrstuvwxyz0123'')"
    and ne: "lit ''abcdefghijklmnopqrstuvwxyz0123'' \<noteq> []"
    and b: "safe 30 ?b = Inr []"
    by (simp_all add: safe_def slice0_def trim_def isWhiteSpace_def lit_def)
  have "\<exists>s' out. on_join sockB (join_payload ?u (JStr lobby)) 3000 two_in_lobby = Inr (s', out)"
    by (rule C4_join_validation [THEN conjunct1, rule_format]) (simp add: js_get_payload)
  then obtain s' out
    where long: "on_join sockB (join_payload ?u (JStr lobby)) 3000 two_in_lobby = Inr (s', out)"
    by blast
  note th = C4_join_validation [THEN conjunct2, rule_format, OF long]
  have t: "truthy ?u" "truthy (JStr lobby)"
    by (simp_all add: lit_def names_nonempty)
  have ok: "out \<noteq> []"
    unfolding th [THEN conjunct1] js_get_payload u names_safe
    using t ne names_nonempty(3) by blast
  from th [THEN conjunct2, THEN conjunct1, rule_format, OF ok]
  have "map_of (users s') sockB =
      Some \<lparr>username = lit ''abcdefghijklmnopqrstuvwxyz0123'', room = lobby\<rparr>"
    unfolding js_get_payload u names_safe by auto
  with long ok have first: "\<exists>s' out. on_join sockB (join_payload ?u (JStr lobby)) 3000
      two_in_lobby = Inr (s', out) \<and> out \<noteq> [] \<and>
      map_of (users s') sockB =
        Some \<lparr>username = lit ''abcdefghijklmnopqrstuvwxyz0123'', room = lobby\<rparr>"
    by blast
  have "\<exists>s' out. on_join sockB (join_payload ?b (JStr lobby)) 3000 two_in_lobby = Inr (s', out)"
    by (rule C4_join_validation [THEN conjunct1, rule_format]) (simp add: js_get_payload)
  then obtain t' out'
    where blank: "on_join sockB (join_payload ?b (JStr lobby)) 3000 two_in_lobby = Inr (t', out')"
    by blast
  note tb = C4_join_validation [THEN conjunct2, rule_format, OF blank]
  have "\<not> out' \<noteq> []"
    unfolding tb [THEN conjunct1] by (simp add: js_get_payload b)
  then have none: "out' = []"
    by simp
  from tb [THEN conjunct2, THEN conjunct2, THEN conjunct1, rule_format, OF none]
  have "t' = two_in_lobby" .
  with blank none have "on_join sockB (join_payload ?b (JStr lobby)) 3000 two_in_lobby =
      Inr (two_in_lobby, [])"
    by simp
  with first show ?thesis
    by (rule conjI)
qed

section \<open>C5: text messages\<close>

lemma trim_blanks_then_x: "trim (replicate 2000 0x20 @ lit ''x'') = lit ''x''"
proof -
  have "dropWhile isWhiteSpace (replicate 2000 0x20 @ lit ''x'') =
      dropWhile isWhiteSpace (lit ''x'')"
    by (rule dropWhile_append2) (simp add: isWhiteSpace_def)
  then show ?thesis
    by (simp add: trim_def isWhiteSpace_def lit_def)
qed

lemma safe_blanks_then_x: "safe 2000 blanks_then_x = Inr []"
proof -
  have "trim (replicate 2000 0x20) = []"
    by (simp add: trim_empty_iff isWhiteSpace_def)
  then show ?thesis
    by (simp add: safe_def blanks_then_x_def slice0_def)
qed

text \<open>
  C5 as stated: a text that does not trim to empty is broadcast. The handler truncates
  before it trims: a text of 2000 blanks followed by \<open>x\<close> trims to \<open>x\<close>, but its first 2000
  code units are blank, and nothing is broadcast. And a text whose \<open>String()\<close> throws is not
  broadcast either: the handler throws.
\<close>

theorem C5_truncated_before_trimmed:
  "map_of (users two_in_lobby) sockA = Some \<lparr>username = alice, room = lobby\<rparr> \<and>
   js_String blanks_then_x = Inr (replicate 2000 0x20 @ lit ''x'') \<and>
   trim (replicate 2000 0x20 @ lit ''x'') = lit ''x'' \<and>
   lit ''x'' \<noteq> [] \<and>
   step two_in_lobby (Message sockA (text_payload blanks_then_x) 4000 4000) =
     Inr (two_in_lobby, []) \<and>
   step two_in_lobby (Message sockA (text_payload no_string) 4000 4000) = Inl TypeError"
  by (simp add: two_in_lobby_state trim_blanks_then_x on_message_def safe_blanks_then_x
      js_get_payload scenario_values)
    (simp add: blanks_then_x_def lit_def)

lemma on_message_joined:
  assumes "map_of (users s) sid = Some u" and "\<not> nullish p"
  shows "on_message sid p now1 now2 s =
     (case js_String (js_get p (lit ''text'')) of
        Inl e \<Rightarrow> Inl e
      | Inr x \<Rightarrow>
          if trim (take 2000 x) = [] then Inr (s, [])
          else Inr (s,
                 [\<lparr>to_room = room u, except = None, recipients = rooms s (room u),
                   packet = ChatMessage (sid @ lit ''-'' @ number_to_string (number_of_int now1))
                              (username u) (trim (take 2000 x)) now2\<rparr>]))"
  using assms
  by (simp add: on_message_def safe_def slice0_def io_to_emit_def message_id_def
      split: sum.splits)

text \<open>
  C5, amended. On a message of a joined connection whose payload is not \<open>null\<close> or
  \<open>undefined\<close> and whose text has a \<open>String()\<close> value, the handler returns. For a message on
  which it returns: when the \<open>String()\<close> value of the text, truncated to its first 2000 code
  units and then trimmed, is empty, which it is whenever the value trims to empty,
  nothing is emitted at all; otherwise exactly one message packet is emitted, carrying the
  truncated and trimmed value (at most 2000 code units), the sender's username and the
  clock reading taken for the timestamp, to all sockets subscribed to the sender's room,
  which include the sender and every connection whose session is in that room. The state
  does not change.
\<close>

theorem C5_message_broadcast:
  assumes "reachable s" and "map_of (users s) sid = Some u"
  shows "(\<not> nullish p \<and> (\<exists>x. js_String (js_get p (lit ''text'')) = Inr x) \<longrightarrow>
            (\<exists>s' out. step s (Message sid p now1 now2) = Inr (s', out))) \<and>
         (\<forall>s' out. step s (Message sid p now1 now2) = Inr (s', out) \<longrightarrow>
            (\<exists>x. js_String (js_get p (lit ''text'')) = Inr x \<and>
               (trim x = [] \<longrightarrow> out = []) \<and>
               (trim (take 2000 x) = [] \<longrightarrow> out = []) \<and>
               (trim (take 2000 x) \<noteq> [] \<longrightarrow>
                  out =
                    [\<lparr>to_room = room u, except = None, recipients = rooms s (room u),
                      packet = ChatMessage
                                 (sid @ lit ''-'' @ number_to_string (number_of_int now1))
                                 (username u) (trim (take 2000 x)) now2\<rparr>]) \<and>
               length (trim (take 2000 x)) \<le> 2000) \<and>
            s' = s) \<and>
         sid \<in> rooms s (room u) \<and>
         (\<forall>c v. map_of (users s) c = Some v \<and> room v = room u \<longrightarrow> c \<in> rooms s (room u))"
proof (intro conjI allI impI)
  from assms have "sid \<in> sockets s"
    by (rule registered_connected)
  then have st: "step s (Message sid p now1 now2) = on_message sid p now1 now2 s"
    by simp
  show "\<exists>s' out. step s (Message sid p now1 now2) = Inr (s', out)"
    if "\<not> nullish p \<and> (\<exists>x. js_String (js_get p (lit ''text'')) = Inr x)"
  proof -
    from that obtain x where np: "\<not> nullish p"
      and x: "js_String (js_get p (lit ''text'')) = Inr x"
      by blast
    show ?thesis
      unfolding st on_message_joined [OF assms(2) np] x by simp
  qed
  show "\<exists>x. js_String (js_get p (lit ''text'')) = Inr x \<and>
      (trim x = [] \<longrightarrow> out = []) \<and>
      (trim (take 2000 x) = [] \<longrightarrow> out = []) \<and>
      (trim (take 2000 x) \<noteq> [] \<longrightarrow>
         out =
           [\<lparr>to_room = room u, except = None, recipients = rooms s (room u),
             packet = ChatMessage (sid @ lit ''-'' @ number_to_string (number_of_int now1))
                        (username u) (trim (take 2000 x)) now2\<rparr>]) \<and>
      length (trim (take 2000 x)) \<le> 2000"
    if "step s (Message sid p now1 now2) = Inr (s', out)" for s' out
  proof -
    from that have om: "on_message sid p now1 now2 s = Inr (s', out)"
      unfolding st .
    then have np: "\<not> nullish p"
      by (auto simp: on_message_def split: if_splits)
    from om obtain x where x: "js_String (js_get p (lit ''text'')) = Inr x"
      unfolding on_message_joined [OF assms(2) np]
      by (cases "js_String (js_get p (lit ''text''))") simp_all
    note res = om [unfolded on_message_joined [OF assms(2) np] x sum.case]
    have "length (trim (take 2000 x)) \<le> length (take 2000 x)"
      by (rule length_trim_le)
    then have len: "length (trim (take 2000 x)) \<le> 2000"
      by simp
    have e1: "out = []" if "trim (take 2000 x) = []"
      using res that by auto
    have e2: "out = []" if "trim x = []"
      using e1 trim_take_empty [OF that] by simp
    have e3: "out =
        [\<lparr>to_room = room u, except = None, recipients = rooms s (room u),
          packet = ChatMessage (sid @ lit ''-'' @ number_to_string (number_of_int now1))
                     (username u) (trim (take 2000 x)) now2\<rparr>]"
      if "trim (take 2000 x) \<noteq> []"
      using res that by auto
    from x e1 e2 e3 len show ?thesis
      by blast
  qed
  show "s' = s" if "step s (Message sid p now1 now2) = Inr (s', out)" for s' out
    using that unfolding st by (rule on_message_state)
  show "sid \<in> rooms s (room u)"
    using assms by (rule members_subscribed)
  show "c \<in> rooms s (room u)" if "map_of (users s) c = Some v \<and> room v = room u" for c v
    using members_subscribed [OF assms(1), of c v] that by simp
qed

theorem C5_message_broadcast_witness:
  "map_of (users two_in_lobby) sockA = Some \<lparr>username = alice, room = lobby\<rparr> \<and>
   step two_in_lobby (Message sockA (text_payload (JStr hi)) 4000 4000) =
     Inr (two_in_lobby,
       [\<lparr>to_room = lobby, except = None, recipients = {sockA, sockB},
         packet = ChatMessage (sockA @ lit ''-4000'') alice hi 4000\<rparr>]) \<and>
   step two_in_lobby (Message sockA (text_payload (JStr (lit '' ''))) 4000 4000) =
     Inr (two_in_lobby, [])"
proof -
  have j: "map_of (users two_in_lobby) sockA = Some \<lparr>username = alice, room = lobby\<rparr>"
    by (simp add: two_in_lobby_state)
  note th = C5_message_broadcast [OF reachable_two_in_lobby j]
  have "\<exists>s' out. step two_in_lobby (Message sockA (text_payload (JStr hi)) 4000 4000) =
      Inr (s', out)"
    by (rule th [THEN conjunct1, rule_format]) (simp add: js_get_payload)
  then obtain s' out
    where a: "step two_in_lobby (Message sockA (text_payload (JStr hi)) 4000 4000) = Inr (s', out)"
    by blast
  from th [THEN conjunct2, THEN conjunct1, rule_format, OF a]
  obtain x where x: "js_String (js_get (text_payload (JStr hi)) (lit ''text'')) = Inr x"
    and sent: "trim (take 2000 x) \<noteq> [] \<longrightarrow>
      out =
        [\<lparr>to_room = room \<lparr>username = alice, room = lobby\<rparr>, except = None,
          recipients = rooms two_in_lobby (room \<lparr>username = alice, room = lobby\<rparr>),
          packet = ChatMessage (sockA @ lit ''-'' @ number_to_string (number_of_int 4000))
                     (username \<lparr>username = alice, room = lobby\<rparr>) (trim (take 2000 x)) 4000\<rparr>]"
    and same: "s' = two_in_lobby"
    by blast
  from x have "x = hi"
    by (simp add: js_get_payload)
  with sent have "out =
      [\<lparr>to_room = lobby, except = None, recipients = {sockA, sockB},
         packet = ChatMessage (sockA @ lit ''-4000'') alice hi 4000\<rparr>]"
    by (simp add: names_trim names_nonempty two_in_lobby_state
        message_id_lit [unfolded message_id_def])
  with a same have first: "step two_in_lobby (Message sockA (text_payload (JStr hi)) 4000 4000) =
     Inr (two_in_lobby,
       [\<lparr>to_room = lobby, except = None, recipients = {sockA, sockB},
         packet = ChatMessage (sockA @ lit ''-4000'') alice hi 4000\<rparr>])"
    by simp
  have "\<exists>s' out. step two_in_lobby (Message sockA (text_payload (JStr (lit '' ''))) 4000 4000) =
      Inr (s', out)"
    by (rule th [THEN conjunct1, rule_format]) (simp add: js_get_payload)
  then obtain t' out'
    where b: "step two_in_lobby (Message sockA (text_payload (JStr (lit '' ''))) 4000 4000) =
      Inr (t', out')"
    by blast
  have blank: "trim (lit '' '') = []"
    by (simp add: trim_def isWhiteSpace_def lit_def)
  from th [THEN conjunct2, THEN conjunct1, rule_format, OF b]
  obtain y where "js_String (js_get (text_payload (JStr (lit '' ''))) (lit ''text'')) = Inr y"
    and drop: "trim y = [] \<longrightarrow> out' = []" and same': "t' = two_in_lobby"
    by blast
  then have "y = lit '' ''"
    by (simp add: js_get_payload)
  with drop blank have "out' = []"
    by simp
  with b same' have "step two_in_lobby (Message sockA (text_payload (JStr (lit '' ''))) 4000 4000) =
     Inr (two_in_lobby, [])"
    by simp
  with j first show ?thesis
    by (intro conjI)
qed

section \<open>C6: media messages\<close>

lemma on_media_joined:
  assumes "map_of (users s) sid = Some u" and "\<not> nullish p"
  shows "on_media sid p now1 now2 s =
     (case js_get p (lit ''url'') of
        JStr link \<Rightarrow>
          if \<not> startsWith link (lit ''/uploads/'') then Inr (s, [])
          else
            (case js_String (js_get p (lit ''mimetype'')) of
               Inl e \<Rightarrow> Inl e
             | Inr mime \<Rightarrow>
                 Inr (s,
                   [\<lparr>to_room = room u, except = None, recipients = rooms s (room u),
                     packet = MediaMessage
                                (sid @ lit ''-'' @ number_to_string (number_of_int now1))
                                (username u) link mime now2\<rparr>]))
      | _ \<Rightarrow> Inr (s, []))"
  using assms
  by (simp add: on_media_def io_to_emit_def message_id_def split: jsval.splits sum.splits)

lemma uploads_prefix:
  "startsWith (lit ''/uploads/a'') (lit ''/uploads/'')"
  "startsWith (lit ''/uploads/123-abc.png'') (lit ''/uploads/'')"
  "\<not> startsWith (lit ''https://evil.example/x'') (lit ''/uploads/'')"
  by (simp_all add: startsWith_def lit_def)

text \<open>
  C6 says that a media event of a joined connection is broadcast whenever its url is a
  string that starts with \<open>/uploads/\<close>. The handler builds the packet with
  \<open>String(mimetype)\<close> after the url has passed the check: for a mimetype whose \<open>String()\<close>
  throws, such as the object \<open>{"toString": 1}\<close>, the handler throws and nothing is
  broadcast, although the url is as required. With a string as mimetype the same url is
  broadcast to the room.
\<close>

theorem C6_mimetype_throws:
  "map_of (users two_in_lobby) sockA = Some \<lparr>username = alice, room = lobby\<rparr> \<and>
   startsWith (lit ''/uploads/a'') (lit ''/uploads/'') \<and>
   step two_in_lobby
     (Media sockA (media_payload (JStr (lit ''/uploads/a'')) no_string) 4000 4000) =
     Inl TypeError \<and>
   step two_in_lobby
     (Media sockA (media_payload (JStr (lit ''/uploads/a'')) (JStr (lit ''image/png'')))
        4000 4000) =
     Inr (two_in_lobby,
       [\<lparr>to_room = lobby, except = None, recipients = {sockA, sockB},
         packet = MediaMessage (sockA @ lit ''-4000'') alice (lit ''/uploads/a'')
                    (lit ''image/png'') 4000\<rparr>])"
proof -
  have j: "map_of (users two_in_lobby) sockA = Some \<lparr>username = alice, room = lobby\<rparr>"
    and l: "sockA \<in> sockets two_in_lobby"
    by (simp_all add: two_in_lobby_state)
  have "step two_in_lobby
      (Media sockA (media_payload (JStr (lit ''/uploads/a'')) no_string) 4000 4000) =
      Inl TypeError"
    using l
    by (simp add: on_media_joined [OF j] js_get_payload uploads_prefix scenario_values)
  moreover have "step two_in_lobby
     (Media sockA (media_payload (JStr (lit ''/uploads/a'')) (JStr (lit ''image/png'')))
        4000 4000) =
     Inr (two_in_lobby,
       [\<lparr>to_room = lobby, except = None, recipients = {sockA, sockB},
         packet = MediaMessage (sockA @ lit ''-4000'') alice (lit ''/uploads/a'')
                    (lit ''image/png'') 4000\<rparr>])"
    using l
    by (simp add: on_media_joined [OF j] js_get_payload uploads_prefix two_in_lobby_state
        message_id_lit [unfolded message_id_def])
  ultimately show ?thesis
    using j uploads_prefix(1) by (intro conjI)
qed

section \<open>C9: the synthetic message id\<close>

text \<open>
  C9 as stated: the id is the connection id concatenated with the timestamp of the
  message. The id is built from a clock reading of its own, with a hyphen in between: when
  the two readings are 4000 and 4001 the id ends in \<open>-4000\<close> and the timestamp is 4001, and
  even when both are 4000 the id is not the connection id followed by \<open>4000\<close>.
\<close>

theorem C9_id_has_own_clock_reading:
  "step two_in_lobby (Message sockA (text_payload (JStr hi)) 4000 4001) =
     Inr (two_in_lobby,
       [\<lparr>to_room = lobby, except = None, recipients = {sockA, sockB},
         packet = ChatMessage (sockA @ lit ''-4000'') alice hi 4001\<rparr>]) \<and>
   sockA @ lit ''-4000'' \<noteq> sockA @ number_to_string (number_of_int 4001) \<and>
   sockA @ lit ''-4000'' \<noteq> sockA @ lit ''-'' @ number_to_string (number_of_int 4001) \<and>
   step two_in_lobby (Message sockA (text_payload (JStr hi)) 4000 4000) =
     Inr (two_in_lobby,
       [\<lparr>to_room = lobby, except = None, recipients = {sockA, sockB},
         packet = ChatMessage (sockA @ lit ''-4000'') alice hi 4000\<rparr>]) \<and>
   sockA @ lit ''-4000'' \<noteq> sockA @ number_to_string (number_of_int 4000)"
proof -
  have j: "map_of (users two_in_lobby) sockA = Some \<lparr>username = alice, room = lobby\<rparr>"
    and l: "sockA \<in> sockets two_in_lobby"
    by (simp_all add: two_in_lobby_state)
  have "step two_in_lobby (Message sockA (text_payload (JStr hi)) 4000 now2) =
     Inr (two_in_lobby,
       [\<lparr>to_room = lobby, except = None, recipients = {sockA, sockB},
         packet = ChatMessage (sockA @ lit ''-4000'') alice hi now2\<rparr>])" for now2
    using l
    by (simp add: on_message_joined [OF j] js_get_payload names_trim names_nonempty
        two_in_lobby_state message_id_lit [unfolded message_id_def])
  then show ?thesis
    by (simp add: clock_lit) (simp add: lit_def)
qed

text \<open>
  C9, amended. The id of every chat and media packet is the id of the sender's socket, a
  hyphen and the clock reading taken for the id, as \<open>String\<close> prints it; the timestamp of the
  packet is the reading of the second \<open>Date.now()\<close> call, the same value whenever both calls
  fall in the same millisecond. Two messages of one connection with different texts,
  handled at the same clock readings, are different packets with the same id.
\<close>

theorem C9_message_id:
  "(\<forall>s' out. on_message sid p now1 now2 s = Inr (s', out) \<longrightarrow>
      (\<forall>e \<in> set out.
         msg_id (packet e) = sid @ lit ''-'' @ number_to_string (number_of_int now1) \<and>
         timestamp (packet e) = now2)) \<and>
   (\<forall>s' out. on_media sid p now1 now2 s = Inr (s', out) \<longrightarrow>
      (\<forall>e \<in> set out.
         msg_id (packet e) = sid @ lit ''-'' @ number_to_string (number_of_int now1) \<and>
         timestamp (packet e) = now2)) \<and>
   (map_of (users s) sid = Some u \<and> \<not> nullish p \<and> \<not> nullish p' \<and>
    safe 2000 (js_get p (lit ''text'')) = Inr x \<and>
    safe 2000 (js_get p' (lit ''text'')) = Inr y \<and> x \<noteq> [] \<and> y \<noteq> [] \<and> x \<noteq> y \<longrightarrow>
      (\<exists>e e'. on_message sid p now1 now2 s = Inr (s, [e]) \<and>
               on_message sid p' now1 now2 s = Inr (s, [e']) \<and>
               packet e \<noteq> packet e' \<and> msg_id (packet e) = msg_id (packet e')))"
proof (intro conjI allI impI ballI)
  show "msg_id (packet e) = sid @ lit ''-'' @ number_to_string (number_of_int now1)"
    if "on_message sid p now1 now2 s = Inr (s', out)" and "e \<in> set out" for s' out e
    using that
    by (auto simp: on_message_def io_to_emit_def message_id_def
        split: option.splits if_splits sum.splits)
  show "timestamp (packet e) = now2"
    if "on_message sid p now1 now2 s = Inr (s', out)" and "e \<in> set out" for s' out e
    using that
    by (auto simp: on_message_def io_to_emit_def split: option.splits if_splits sum.splits)
  show "msg_id (packet e) = sid @ lit ''-'' @ number_to_string (number_of_int now1)"
    if "on_media sid p now1 now2 s = Inr (s', out)" and "e \<in> set out" for s' out e
    using that
    by (auto simp: on_media_def io_to_emit_def message_id_def
        split: option.splits jsval.splits if_splits sum.splits)
  show "timestamp (packet e) = now2"
    if "on_media sid p now1 now2 s = Inr (s', out)" and "e \<in> set out" for s' out e
    using that
    by (auto simp: on_media_def io_to_emit_def
        split: option.splits jsval.splits if_splits sum.splits)
next
  assume a: "map_of (users s) sid = Some u \<and> \<not> nullish p \<and> \<not> nullish p' \<and>
    safe 2000 (js_get p (lit ''text'')) = Inr x \<and>
    safe 2000 (js_get p' (lit ''text'')) = Inr y \<and> x \<noteq> [] \<and> y \<noteq> [] \<and> x \<noteq> y"
  let ?e = "io_to_emit s (room u) (ChatMessage (message_id sid now1) (username u) x now2)"
  let ?e' = "io_to_emit s (room u) (ChatMessage (message_id sid now1) (username u) y now2)"
  from a have "on_message sid p now1 now2 s = Inr (s, [?e])"
    and "on_message sid p' now1 now2 s = Inr (s, [?e'])"
    by (simp_all add: on_message_def)
  moreover from a have "packet ?e \<noteq> packet ?e'"
    by (simp add: io_to_emit_def)
  moreover have "msg_id (packet ?e) = msg_id (packet ?e')"
    by (simp add: io_to_emit_def)
  ultimately show "\<exists>e e'. on_message sid p now1 now2 s = Inr (s, [e]) \<and>
      on_message sid p' now1 now2 s = Inr (s, [e']) \<and>
      packet e \<noteq> packet e' \<and> msg_id (packet e) = msg_id (packet e')"
    by blast
qed

theorem C9_message_id_witness:
  "(\<exists>e e'. on_message sockA (text_payload (JStr hi)) 4000 4000 two_in_lobby =
        Inr (two_in_lobby, [e]) \<and>
      on_message sockA (text_payload (JStr bob)) 4000 4000 two_in_lobby =
        Inr (two_in_lobby, [e']) \<and>
      packet e \<noteq> packet e' \<and>
      msg_id (packet e) = sockA @ lit ''-4000'' \<and> msg_id (packet e') = sockA @ lit ''-4000'') \<and>
   (\<exists>e. on_media sockA (media_payload (JStr (lit ''/uploads/a'')) (JStr (lit ''image/png'')))
        4000 4001 two_in_lobby = Inr (two_in_lobby, [e]) \<and>
      msg_id (packet e) = sockA @ lit ''-4000'' \<and> timestamp (packet e) = 4001)"
proof -
  have j: "map_of (users two_in_lobby) sockA = Some \<lparr>username = alice, room = lobby\<rparr>"
    by (simp add: two_in_lobby_state)
  note th = C9_message_id [where sid = sockA and s = two_in_lobby and ?now1.0 = 4000]
  have "\<exists>e e'. on_message sockA (text_payload (JStr hi)) 4000 4000 two_in_lobby =
        Inr (two_in_lobby, [e]) \<and>
      on_message sockA (text_payload (JStr bob)) 4000 4000 two_in_lobby =
        Inr (two_in_lobby, [e']) \<and>
      packet e \<noteq> packet e' \<and> msg_id (packet e) = msg_id (packet e')"
    by (rule th [where p = "text_payload (JStr hi)" and p' = "text_payload (JStr bob)"
          and x = hi and y = bob and ?now2.0 = 4000
          and u = "\<lparr>username = alice, room = lobby\<rparr>",
          THEN conjunct2, THEN conjunct2, rule_format])
      (simp add: j js_get_payload names_safe names_nonempty names_lit)
  then obtain e e'
    where e: "on_message sockA (text_payload (JStr hi)) 4000 4000 two_in_lobby =
        Inr (two_in_lobby, [e])"
      and e': "on_message sockA (text_payload (JStr bob)) 4000 4000 two_in_lobby =
        Inr (two_in_lobby, [e'])"
      and d: "packet e \<noteq> packet e'" and same: "msg_id (packet e) = msg_id (packet e')"
    by blast
  from th [where p = "text_payload (JStr hi)" and ?now2.0 = 4000, THEN conjunct1, rule_format,
      OF e, of e]
  have "msg_id (packet e) = sockA @ lit ''-4000''"
    by (simp add: message_id_lit [unfolded message_id_def])
  with e e' d same have chat: "\<exists>e e'. on_message sockA (text_payload (JStr hi)) 4000 4000
        two_in_lobby = Inr (two_in_lobby, [e]) \<and>
      on_message sockA (text_payload (JStr bob)) 4000 4000 two_in_lobby =
        Inr (two_in_lobby, [e']) \<and>
      packet e \<noteq> packet e' \<and>
      msg_id (packet e) = sockA @ lit ''-4000'' \<and> msg_id (packet e') = sockA @ lit ''-4000''"
    by auto
  let ?m = "media_payload (JStr (lit ''/uploads/a'')) (JStr (lit ''image/png''))"
  obtain m where m: "on_media sockA ?m 4000 4001 two_in_lobby = Inr (two_in_lobby, [m])"
    by (simp add: on_media_joined [OF j] js_get_payload uploads_prefix)
  from th [where p = ?m and ?now2.0 = 4001, THEN conjunct2, THEN conjunct1, rule_format,
      OF m, of m]
  have "msg_id (packet m) = sockA @ lit ''-4000'' \<and> timestamp (packet m) = 4001"
    by (simp add: message_id_lit [unfolded message_id_def])
  with m have "\<exists>e. on_media sockA ?m 4000 4001 two_in_lobby = Inr (two_in_lobby, [e]) \<and>
      msg_id (packet e) = sockA @ lit ''-4000'' \<and> timestamp (packet e) = 4001"
    by blast
  with chat show ?thesis
    by (rule conjI)
qed

section \<open>C10: a message without a text field\<close>







end
